theory Spec2Isabelle
  imports Main "HOL-Library.AList"
begin

section \<open>Conventions of the embedding\<close>

text \<open>
  The server side of the collaborative canvas is three JavaScript classes:
  \<^verbatim>\<open>VectorClock\<close>, \<open>OperationLog\<close> and \<open>RoomManager\<close>. Each method becomes a function
  that takes the object's state and returns the new state beside the method's result.

  \<^item> A \<open>Map\<close> is an association list in insertion order; \<open>get\<close> is \<^const>\<open>map_of\<close>,
    \<open>set\<close> is \<^const>\<open>AList.update\<close> (in place for a known key, at the end for a new one),
    \<open>delete\<close> is \<^const>\<open>AList.delete\<close>.
  \<^item> A plain object used as a dictionary (\<open>clock\<close>) is the association list of its
    own properties. Reading \<open>clock[key]\<close> finds an own property, or else a property
    that every plain object inherits from \<open>Object.prototype\<close>, or else \<open>undefined\<close>.
  \<^item> Every reading of \<open>Date.now()\<close> and of \<open>Math.random()\<close> is an argument of the function
    that reads it, one argument for each place of the source that reads.
  \<^item> Strings compared with \<open>===\<close> are strings here; numbers are integers (timestamps,
    which are subtracted) or naturals (counters and sizes).
  \<^item> The entries of a log's \<open>operations\<close> array are objects of their own: no object
    is at two positions, as for the operations that \<open>addOperation\<close> creates and for
    operations received as JSON. So the array is a list of records, and an assignment
    to the object that \<open>find\<close> returned changes that one entry.
  \<^item> \<open>Array.prototype.sort\<close> is the stable insertion sort \<open>js_sort\<close> below. ECMAScript
    fixes the result of \<open>sort\<close> only for a consistent comparator, where every stable
    sort returns the same array; for the other comparators the order is left to the
    engine, and \<open>js_sort\<close> is one admissible engine.
\<close>

section \<open>VectorClock\<close>

text \<open>The value of an own property of a clock: a number, which is a natural number
  here, or \<open>NaN\<close>, which the code writes when it counts on an inherited property.\<close>

datatype counter = Count nat | NaN

type_synonym clock = "(string \<times> counter) list"

text \<open>The names of the properties of \<open>Object.prototype\<close>: eleven functions and the
  accessor \<open>__proto__\<close>.\<close>

definition prototype_names :: "string list" where
  "prototype_names =
     [''constructor'', ''hasOwnProperty'', ''isPrototypeOf'', ''propertyIsEnumerable'',
      ''toLocaleString'', ''toString'', ''valueOf'', ''__proto__'',
      ''__defineGetter__'', ''__defineSetter__'', ''__lookupGetter__'', ''__lookupSetter__'']"

text \<open>What \<open>clock[userId]\<close> evaluates to: the value of the own property, a function or
  object of \<open>Object.prototype\<close>, or \<open>undefined\<close>.\<close>

datatype property = Own counter | Inherited | Undefined

definition get_property :: "clock \<Rightarrow> string \<Rightarrow> property" where
  "get_property clock userId =
     (case map_of clock userId of
        Some v \<Rightarrow> Own v
      | None \<Rightarrow> if userId \<in> set prototype_names then Inherited else Undefined)"

text \<open>The number 0, \<open>NaN\<close> and \<open>undefined\<close> are falsy; a function or an object is
  truthy.\<close>

fun truthy :: "property \<Rightarrow> bool" where
  "truthy (Own (Count n)) = (n \<noteq> 0)"
| "truthy (Own NaN) = False"
| "truthy Inherited = True"
| "truthy Undefined = False"

text \<open>\<open>value || 0\<close>.\<close>

definition or_zero :: "property \<Rightarrow> property" where
  "or_zero v = (if truthy v then v else Own (Count 0))"

text \<open>The conversion to a number, in \<open>++\<close> and \<open>Math.max\<close>: a function or an object of
  \<open>Object.prototype\<close> and \<open>undefined\<close> become \<open>NaN\<close>.\<close>

fun to_number :: "property \<Rightarrow> counter" where
  "to_number (Own c) = c"
| "to_number Inherited = NaN"
| "to_number Undefined = NaN"

fun plus_one :: "counter \<Rightarrow> counter" where
  "plus_one (Count n) = Count (n + 1)"
| "plus_one NaN = NaN"

fun math_max :: "counter \<Rightarrow> counter \<Rightarrow> counter" where
  "math_max (Count a) (Count b) = Count (max a b)"
| "math_max a b = NaN"

text \<open>\<open>a < b\<close>; \<open>a > b\<close> is \<open>b < a\<close>. A comparison with \<open>NaN\<close> is false, and so is one of
  a number with an inherited function or object, which converts to \<open>NaN\<close>; the two
  reads of one inherited property give one object, which is not less than itself.\<close>

fun less_than :: "property \<Rightarrow> property \<Rightarrow> bool" where
  "less_than (Own (Count a)) (Own (Count b)) = (a < b)"
| "less_than a b = False"

text \<open>\<open>clock[userId] = v\<close> for a number \<open>v\<close>: the own property is set or created, but
  an assignment to an inherited \<open>__proto__\<close> calls its setter, which ignores a
  number.\<close>

definition set_property :: "clock \<Rightarrow> string \<Rightarrow> counter \<Rightarrow> clock" where
  "set_property clock userId v =
     (if userId = ''__proto__'' \<and> map_of clock userId = None then clock
      else AList.update userId v clock)"

definition increment :: "clock \<Rightarrow> string \<Rightarrow> clock" where
  "increment clock userId =
     (let clock1 = (if \<not> truthy (get_property clock userId)
                    then set_property clock userId (Count 0) else clock)
      in set_property clock1 userId (plus_one (to_number (get_property clock1 userId))))"

definition update :: "clock \<Rightarrow> clock option \<Rightarrow> clock" where
  "update clock remoteClock =
     (case remoteClock of
        None \<Rightarrow> clock
      | Some remote \<Rightarrow>
          fold (\<lambda>(userId, timestamp) c.
                  set_property c userId
                    (math_max (to_number (or_zero (get_property c userId))) timestamp))
            remote clock)"

definition allUsers :: "clock \<Rightarrow> clock \<Rightarrow> string list" where
  "allUsers clockA clockB = rev (remdups (rev (map fst clockA @ map fst clockB)))"

fun compare_loop :: "clock \<Rightarrow> clock \<Rightarrow> string list \<Rightarrow> bool \<times> bool \<Rightarrow> bool \<times> bool" where
  "compare_loop clockA clockB [] flags = flags"
| "compare_loop clockA clockB (userId # rest) (hasLess, hasGreater) =
     (let valueA = or_zero (get_property clockA userId);
          valueB = or_zero (get_property clockB userId)
      in compare_loop clockA clockB rest
           (if less_than valueA valueB then True else hasLess,
            if less_than valueB valueA then True else hasGreater))"

text \<open>The arguments of \<open>compare\<close> may be \<open>null\<close> or \<open>undefined\<close> (\<open>None\<close>); an object,
  even the empty one, is truthy.\<close>

definition compare :: "clock option \<Rightarrow> clock option \<Rightarrow> int" where
  "compare a b =
     (case a of
        None \<Rightarrow> 0
      | Some clockA \<Rightarrow>
          (case b of
             None \<Rightarrow> 0
           | Some clockB \<Rightarrow>
               (case compare_loop clockA clockB (allUsers clockA clockB) (False, False) of
                  (hasLess, hasGreater) \<Rightarrow>
                    if hasLess \<and> \<not> hasGreater then - 1
                    else if hasGreater \<and> \<not> hasLess then 1
                    else 0)))"

definition happensBefore :: "clock option \<Rightarrow> clock option \<Rightarrow> bool" where
  "happensBefore clockA clockB = (compare clockA clockB = - 1)"

definition areConcurrent :: "clock option \<Rightarrow> clock option \<Rightarrow> bool" where
  "areConcurrent clockA clockB = (compare clockA clockB = 0)"

subsection \<open>Components of a clock\<close>



subsection \<open>Array.prototype.sort\<close>

fun js_insert :: "('a \<Rightarrow> 'a \<Rightarrow> int) \<Rightarrow> 'a \<Rightarrow> 'a list \<Rightarrow> 'a list" where
  "js_insert cmp x [] = [x]"
| "js_insert cmp x (y # ys) = (if cmp x y \<le> 0 then x # y # ys else y # js_insert cmp x ys)"

definition js_sort :: "('a \<Rightarrow> 'a \<Rightarrow> int) \<Rightarrow> 'a list \<Rightarrow> 'a list" where
  "js_sort cmp xs = foldr (js_insert cmp) xs []"

section \<open>OperationLog\<close>

text \<open>The \<open>data\<close> of an operation is what the caller passed (a stroke, kept opaque) or
  the record \<open>{clearedCount, timestamp}\<close> that \<open>clearOperations\<close> builds.\<close>

datatype 's op_data = Payload 's | Cleared nat int

record 's operation =
  op_id :: string
  op_type :: string
  op_data :: "'s op_data"
  op_userId :: string
  op_state :: string
  op_vectorClock :: "clock option"
  op_timestamp :: int
  op_roomId :: string
  op_undoneBy :: "string option"
  op_undoneAt :: "int option"
  op_redoneBy :: "string option"
  op_redoneAt :: "int option"

record 's oplog =
  log_roomId :: string
  operations :: "'s operation list"
  vectorClock :: clock
  createdAt :: int

definition ACTIVE :: string where "ACTIVE = ''active''"
definition UNDONE :: string where "UNDONE = ''undone''"
definition STROKE :: string where "STROKE = ''stroke''"
definition CLEAR :: string where "CLEAR = ''clear''"

definition maxOperations :: nat where "maxOperations = 1000"

definition OperationLog :: "string \<Rightarrow> int \<Rightarrow> 's oplog" where
  "OperationLog room now =
     \<lparr>log_roomId = room, operations = [], vectorClock = [], createdAt = now\<rparr>"

subsection \<open>sortEvents\<close>

definition sort_cmp :: "'s operation \<Rightarrow> 's operation \<Rightarrow> int" where
  "sort_cmp a b =
     (let clockA = op_vectorClock a; clockB = op_vectorClock b
      in if clockA = None \<or> clockB = None then op_timestamp a - op_timestamp b
         else (let comparison = compare clockA clockB
               in if comparison \<noteq> 0 then comparison
                  else op_timestamp a - op_timestamp b))"

definition sortEvents :: "'s operation list \<Rightarrow> 's operation list" where
  "sortEvents events = js_sort sort_cmp events"

subsection \<open>Appending and trimming\<close>

text \<open>Decimal digits of a number, for the template strings that build identifiers.\<close>

fun dec_nat :: "nat \<Rightarrow> string" where
  "dec_nat n =
     (if n < 10 then [''0123456789'' ! n]
      else dec_nat (n div 10) @ [''0123456789'' ! (n mod 10)])"

declare dec_nat.simps [simp del]

definition dec_int :: "int \<Rightarrow> string" where
  "dec_int i = (if i < 0 then CHR ''-'' # dec_nat (nat (- i)) else dec_nat (nat i))"

definition generateOperationId :: "string \<Rightarrow> int \<Rightarrow> string \<Rightarrow> string" where
  "generateOperationId userId timestamp random =
     userId @ ''_'' @ dec_int timestamp @ ''_'' @ random"

definition trimOperations :: "'s oplog \<Rightarrow> 's oplog" where
  "trimOperations L =
     (if length (operations L) > maxOperations
      then (let toRemove = length (operations L) - maxOperations
            in L\<lparr>operations := drop toRemove (operations L)\<rparr>)
      else L)"

text \<open>\<open>addOperation\<close> reads the clock twice (for the identifier and for the timestamp)
  and \<open>Math.random()\<close> once.\<close>

record add_env =
  id_now :: int
  id_random :: string
  stamp_now :: int

definition addOperation ::
  "'s oplog \<Rightarrow> string \<Rightarrow> string \<Rightarrow> 's op_data \<Rightarrow> add_env \<Rightarrow> 's operation \<times> 's oplog" where
  "addOperation L userId type data env =
     (let clock' = increment (vectorClock L) userId;
          operation = \<lparr>op_id = generateOperationId userId (id_now env) (id_random env),
                       op_type = type,
                       op_data = data,
                       op_userId = userId,
                       op_state = ACTIVE,
                       op_vectorClock = Some clock',
                       op_timestamp = stamp_now env,
                       op_roomId = log_roomId L,
                       op_undoneBy = None, op_undoneAt = None,
                       op_redoneBy = None, op_redoneAt = None\<rparr>
      in (operation,
          trimOperations (L\<lparr>vectorClock := clock',
                            operations := operations L @ [operation]\<rparr>)))"

text \<open>A sequence of \<open>addOperation\<close> calls, each with its arguments and readings.\<close>

fun addOperations ::
  "'s oplog \<Rightarrow> (string \<times> string \<times> 's op_data \<times> add_env) list \<Rightarrow> 's oplog" where
  "addOperations L [] = L"
| "addOperations L ((userId, type, data, env) # calls) =
     addOperations (snd (addOperation L userId type data env)) calls"

subsection \<open>Undo and redo\<close>

datatype 's op_result = Success "'s operation" | Failure string

definition getOperation :: "'s oplog \<Rightarrow> string \<Rightarrow> 's operation option" where
  "getOperation L operationId = find (\<lambda>op. op_id op = operationId) (operations L)"

text \<open>The object that \<open>find\<close> returned is changed in place: the first entry with the
  identifier.\<close>

fun assign_found :: "string \<Rightarrow> 's operation \<Rightarrow> 's operation list \<Rightarrow> 's operation list" where
  "assign_found operationId operation' [] = []"
| "assign_found operationId operation' (op # ops) =
     (if op_id op = operationId then operation' # ops
      else op # assign_found operationId operation' ops)"

definition undoOperation ::
  "'s oplog \<Rightarrow> string \<Rightarrow> string \<Rightarrow> int \<Rightarrow> 's op_result \<times> 's oplog" where
  "undoOperation L operationId userId now =
     (case find (\<lambda>op. op_id op = operationId) (operations L) of
        None \<Rightarrow> (Failure ''Operation not found'', L)
      | Some operation \<Rightarrow>
          if op_state operation \<noteq> ACTIVE then (Failure ''Operation already undone'', L)
          else (let operation' = operation\<lparr>op_state := UNDONE,
                                             op_undoneBy := Some userId,
                                             op_undoneAt := Some now\<rparr>
                in (Success operation',
                    L\<lparr>operations := assign_found operationId operation' (operations L)\<rparr>)))"

definition redoOperation ::
  "'s oplog \<Rightarrow> string \<Rightarrow> string \<Rightarrow> int \<Rightarrow> 's op_result \<times> 's oplog" where
  "redoOperation L operationId userId now =
     (case find (\<lambda>op. op_id op = operationId) (operations L) of
        None \<Rightarrow> (Failure ''Operation not found'', L)
      | Some operation \<Rightarrow>
          if op_state operation \<noteq> UNDONE then (Failure ''Operation is not undone'', L)
          else (let operation' = operation\<lparr>op_state := ACTIVE,
                                             op_redoneBy := Some userId,
                                             op_redoneAt := Some now\<rparr>
                in (Success operation',
                    L\<lparr>operations := assign_found operationId operation' (operations L)\<rparr>)))"

subsection \<open>Clear\<close>

definition getActiveOperations :: "'s oplog \<Rightarrow> 's operation list" where
  "getActiveOperations L = filter (\<lambda>op. op_state op = ACTIVE) (operations L)"

text \<open>The \<open>forEach\<close> of \<open>clearOperations\<close>; \<open>undone_now i\<close> is the clock as read at the
  entry of index \<open>i\<close>.\<close>

fun mark_undone ::
  "string \<Rightarrow> string \<Rightarrow> (nat \<Rightarrow> int) \<Rightarrow> nat \<Rightarrow> 's operation list \<Rightarrow> 's operation list" where
  "mark_undone clearId userId undone_now i [] = []"
| "mark_undone clearId userId undone_now i (op # ops) =
     (if op_id op \<noteq> clearId \<and> op_state op = ACTIVE
      then op\<lparr>op_state := UNDONE, op_undoneBy := Some userId,
              op_undoneAt := Some (undone_now i)\<rparr>
      else op) # mark_undone clearId userId undone_now (Suc i) ops"

definition clearOperations ::
  "'s oplog \<Rightarrow> string \<Rightarrow> int \<Rightarrow> add_env \<Rightarrow> (nat \<Rightarrow> int) \<Rightarrow> 's operation \<times> 's oplog" where
  "clearOperations L userId data_now env undone_now =
     (case addOperation L userId CLEAR
             (Cleared (length (getActiveOperations L)) data_now) env of
        (clearOp, L1) \<Rightarrow>
          (clearOp,
           L1\<lparr>operations := mark_undone (op_id clearOp) userId undone_now 0 (operations L1)\<rparr>))"

subsection \<open>Merge\<close>

record merge_result =
  merged :: nat
  total :: nat

definition mergeOperations :: "'s oplog \<Rightarrow> 's operation list \<Rightarrow> merge_result \<times> 's oplog" where
  "mergeOperations L externalOperations =
     (let existing = set (map op_id (operations L));
          newOps = filter (\<lambda>op. op_id op \<notin> existing) externalOperations;
          clock' = fold (\<lambda>op c. if op_vectorClock op \<noteq> None then update c (op_vectorClock op) else c)
                     newOps (vectorClock L);
          L1 = L\<lparr>vectorClock := clock', operations := operations L @ newOps\<rparr>;
          L2 = L1\<lparr>operations := sortEvents (operations L1)\<rparr>;
          L3 = trimOperations L2
      in (\<lparr>merged = length newOps, total = length (operations L3)\<rparr>, L3))"

subsection \<open>Statistics, snapshot, export and import\<close>

record stats =
  st_total :: nat
  st_active :: nat
  st_undone :: nat
  st_strokes :: nat
  st_clears :: nat
  st_roomId :: string
  st_createdAt :: int
  st_age :: int

definition getStats :: "'s oplog \<Rightarrow> int \<Rightarrow> stats" where
  "getStats L now =
     \<lparr>st_total = length (operations L),
      st_active = length (getActiveOperations L),
      st_undone = length (filter (\<lambda>op. op_state op = UNDONE) (operations L)),
      st_strokes = length (filter (\<lambda>op. op_type op = STROKE) (operations L)),
      st_clears = length (filter (\<lambda>op. op_type op = CLEAR) (operations L)),
      st_roomId = log_roomId L,
      st_createdAt = createdAt L,
      st_age = now - createdAt L\<rparr>"







section \<open>RoomManager\<close>

text \<open>
  A user object is referenced from two maps, the room's \<open>users\<close> (by user id) and the
  manager's \<open>users\<close> (by socket id), and \<open>updateActivity\<close> assigns to it through one of
  them. So the user objects live in a store, a list that only grows, and both maps hold
  references: positions in the store. A room object is referenced from \<open>rooms\<close> only,
  under its own id, and is kept there by value.

  A \<open>Map\<close> is an association list with \<open>AList.update\<close> and \<open>AList.delete\<close>, which keep
  the keys distinct; its \<open>size\<close> is the length of the list.

  The callbacks given to \<open>setTimeout\<close> and \<open>setInterval\<close> are the functions
  \<open>roomCleanup\<close> and \<open>cleanupTick\<close>; the event loop may run them at any later time, with
  the clock reading of that time as argument.
\<close>

record user =
  u_id :: string
  u_socketId :: string
  u_name :: string
  u_color :: string
  u_roomId :: string
  u_joinedAt :: int
  u_lastActivity :: int

record 's room =
  r_id :: string
  r_users :: "(string \<times> nat) list"
  r_operationLog :: "'s oplog"
  r_createdAt :: int
  r_lastActivity :: int

record 's manager =
  rooms :: "(string \<times> 's room) list"
  users :: "(string \<times> nat) list"
  store :: "user list"

definition USER_COLORS :: "string list" where
  "USER_COLORS =
     [''#FF6B6B'', ''#4ECDC4'', ''#45B7D1'', ''#FFA07A'',
      ''#98D8C8'', ''#F7DC6F'', ''#BB8FCE'', ''#85C1E2'',
      ''#F8B739'', ''#52B788'']"

definition maxUsersPerRoom :: nat where "maxUsersPerRoom = 20"

definition roomTimeout :: int where "roomTimeout = 3600000"

definition RoomManager :: "'s manager" where
  "RoomManager = \<lparr>rooms = [], users = [], store = []\<rparr>"

text \<open>What \<open>joinRoom\<close> reads from the clock and from \<open>Math.random()\<close>, in the order of
  the reads. The three numbers of \<open>generateUsername\<close> and the hue are the values of
  \<open>Math.floor(Math.random() * n)\<close>.\<close>

record join_env =
  log_created_now :: int
  room_createdAt :: int
  room_lastActivity :: int
  uid_now :: int
  uid_random :: string
  name_adjective :: nat
  name_noun :: nat
  name_number :: nat
  color_hue :: nat
  joined_now :: int
  active_now :: int
  room_now :: int
  info_now :: int

definition createRoom :: "'s manager \<Rightarrow> string \<Rightarrow> join_env \<Rightarrow> 's room \<times> 's manager" where
  "createRoom m roomId env =
     (case map_of (rooms m) roomId of
        Some room \<Rightarrow> (room, m)
      | None \<Rightarrow>
          (let room = \<lparr>r_id = roomId, r_users = [],
                       r_operationLog = OperationLog roomId (log_created_now env),
                       r_createdAt = room_createdAt env,
                       r_lastActivity = room_lastActivity env\<rparr>
           in (room, m\<lparr>rooms := AList.update roomId room (rooms m)\<rparr>)))"

definition getRoom :: "'s manager \<Rightarrow> string \<Rightarrow> join_env \<Rightarrow> 's room \<times> 's manager" where
  "getRoom m roomId env =
     (case map_of (rooms m) roomId of
        None \<Rightarrow> createRoom m roomId env
      | Some room \<Rightarrow> (room, m))"

definition generateUserId :: "int \<Rightarrow> string \<Rightarrow> string" where
  "generateUserId now random = ''user_'' @ dec_int now @ ''_'' @ random"

definition adjectives :: "string list" where
  "adjectives = [''Happy'', ''Creative'', ''Swift'', ''Clever'', ''Bold'', ''Bright'']"

definition nouns :: "string list" where
  "nouns = [''Artist'', ''Painter'', ''Drawer'', ''Creator'', ''Designer'', ''Maker'']"

definition generateUsername :: "join_env \<Rightarrow> string" where
  "generateUsername env =
     adjectives ! (name_adjective env mod length adjectives) @
     nouns ! (name_noun env mod length nouns) @
     dec_nat (name_number env)"

definition generateRandomColor :: "nat \<Rightarrow> string" where
  "generateRandomColor hue = ''hsl('' @ dec_nat hue @ '', 70%, 60%)''"

definition assignColor :: "user list \<Rightarrow> 's room \<Rightarrow> join_env \<Rightarrow> string" where
  "assignColor st room env =
     (let usedColors = set (map (\<lambda>(userId, p). u_color (st ! p)) (r_users room))
      in case find (\<lambda>color. color \<notin> usedColors) USER_COLORS of
           Some color \<Rightarrow> color
         | None \<Rightarrow> generateRandomColor (color_hue env))"

definition getRoomUsers :: "'s manager \<Rightarrow> string \<Rightarrow> user list" where
  "getRoomUsers m roomId =
     (case map_of (rooms m) roomId of
        None \<Rightarrow> []
      | Some room \<Rightarrow> map (\<lambda>(userId, p). store m ! p) (r_users room))"

record room_info =
  ri_id :: string
  ri_userCount :: nat
  ri_users :: "(string \<times> string \<times> string) list"
  ri_stats :: stats

definition getRoomInfo :: "user list \<Rightarrow> 's room \<Rightarrow> int \<Rightarrow> room_info" where
  "getRoomInfo st room now =
     \<lparr>ri_id = r_id room,
      ri_userCount = length (r_users room),
      ri_users = map (\<lambda>(userId, p). (u_id (st ! p), u_name (st ! p), u_color (st ! p)))
                   (r_users room),
      ri_stats = getStats (r_operationLog room) now\<rparr>"

datatype join_result = Joined user room_info | Rejected string

definition joinRoom ::
  "'s manager \<Rightarrow> string \<Rightarrow> string \<Rightarrow> string option \<Rightarrow> join_env \<Rightarrow> join_result \<times> 's manager" where
  "joinRoom m socketId roomId username env =
     (case getRoom m roomId env of
        (room, m1) \<Rightarrow>
          if length (r_users room) \<ge> maxUsersPerRoom then (Rejected ''Room is full'', m1)
          else
            (let userId = generateUserId (uid_now env) (uid_random env);
                 user = \<lparr>u_id = userId,
                         u_socketId = socketId,
                         u_name = (case username of
                                     None \<Rightarrow> generateUsername env
                                   | Some name \<Rightarrow> if name = [] then generateUsername env else name),
                         u_color = assignColor (store m1) room env,
                         u_roomId = roomId,
                         u_joinedAt = joined_now env,
                         u_lastActivity = active_now env\<rparr>;
                 p = length (store m1);
                 room' = room\<lparr>r_users := AList.update userId p (r_users room),
                              r_lastActivity := room_now env\<rparr>;
                 m2 = m1\<lparr>rooms := AList.update roomId room' (rooms m1),
                          users := AList.update socketId p (users m1),
                          store := store m1 @ [user]\<rparr>
             in (Joined user (getRoomInfo (store m2) room' (info_now env)), m2)))"

definition leaveRoom ::
  "'s manager \<Rightarrow> string \<Rightarrow> int \<Rightarrow> (user \<times> room_info) option \<times> 's manager" where
  "leaveRoom m socketId info_time =
     (case map_of (users m) socketId of
        None \<Rightarrow> (None, m)
      | Some p \<Rightarrow>
          (let user = store m ! p
           in case map_of (rooms m) (u_roomId user) of
                None \<Rightarrow> (None, m)
              | Some room \<Rightarrow>
                  (let room' = room\<lparr>r_users := AList.delete (u_id user) (r_users room)\<rparr>;
                       m' = m\<lparr>rooms := AList.update (u_roomId user) room' (rooms m),
                               users := AList.delete socketId (users m)\<rparr>
                   in (Some (user, getRoomInfo (store m') room' info_time), m'))))"

definition updateActivity :: "'s manager \<Rightarrow> string \<Rightarrow> int \<Rightarrow> int \<Rightarrow> 's manager" where
  "updateActivity m socketId user_time room_time =
     (case map_of (users m) socketId of
        None \<Rightarrow> m
      | Some p \<Rightarrow>
          (let user = (store m ! p)\<lparr>u_lastActivity := user_time\<rparr>;
               m1 = m\<lparr>store := (store m)[p := user]\<rparr>
           in case map_of (rooms m1) (u_roomId user) of
                None \<Rightarrow> m1
              | Some room \<Rightarrow>
                  m1\<lparr>rooms := AList.update (u_roomId user)
                                 (room\<lparr>r_lastActivity := room_time\<rparr>) (rooms m1)\<rparr>))"

definition deleteRoom :: "'s manager \<Rightarrow> string \<Rightarrow> 's manager" where
  "deleteRoom m roomId =
     (case map_of (rooms m) roomId of
        None \<Rightarrow> m
      | Some room \<Rightarrow> m\<lparr>rooms := AList.delete roomId (rooms m)\<rparr>)"

text \<open>The callback of \<open>scheduleRoomCleanup(roomId)\<close>.\<close>

definition roomCleanup :: "'s manager \<Rightarrow> string \<Rightarrow> int \<Rightarrow> 's manager" where
  "roomCleanup m roomId now =
     (case map_of (rooms m) roomId of
        None \<Rightarrow> m
      | Some room \<Rightarrow>
          if length (r_users room) = 0
          then (let age = now - r_lastActivity room
                in if age > 60000 then deleteRoom m roomId else m)
          else m)"

text \<open>The callback of \<open>startCleanupTimer\<close>.\<close>

definition cleanupTick :: "'s manager \<Rightarrow> int \<Rightarrow> 's manager" where
  "cleanupTick m now =
     (let toDelete =
            map fst
              (filter (\<lambda>(roomId, room).
                         (let inactiveTime = now - r_lastActivity room
                          in if length (r_users room) = 0 \<and> inactiveTime > 300000 then True
                             else if inactiveTime > roomTimeout then True
                             else False))
                 (rooms m))
      in fold (\<lambda>roomId m'. deleteRoom m' roomId) toDelete m)"

subsection \<open>Agreement of the membership maps with the sessions map\<close>

text \<open>Every session in a room's \<open>users\<close> is the session that the manager's \<open>users\<close>
  holds for its socket, and is of that room; every session in the manager's \<open>users\<close>
  is in the \<open>users\<close> of the room it names, which exists.\<close>

definition room_sessions_known :: "'s manager \<Rightarrow> bool" where
  "room_sessions_known m =
     list_all (\<lambda>(roomId, room).
        list_all (\<lambda>(userId, p).
           p < length (store m) \<and>
           u_id (store m ! p) = userId \<and>
           u_roomId (store m ! p) = roomId \<and>
           map_of (users m) (u_socketId (store m ! p)) = Some p) (r_users room)) (rooms m)"

definition sessions_in_rooms :: "'s manager \<Rightarrow> bool" where
  "sessions_in_rooms m =
     list_all (\<lambda>(socketId, p).
        p < length (store m) \<and>
        u_socketId (store m ! p) = socketId \<and>
        (case map_of (rooms m) (u_roomId (store m ! p)) of
           None \<Rightarrow> False
         | Some room \<Rightarrow> map_of (r_users room) (u_id (store m ! p)) = Some p)) (users m)"

definition sessions_agree :: "'s manager \<Rightarrow> bool" where
  "sessions_agree m = (room_sessions_known m \<and> sessions_in_rooms m)"

text \<open>The keys of each \<open>Map\<close> are distinct.\<close>

definition distinct_keys :: "'s manager \<Rightarrow> bool" where
  "distinct_keys m =
     (distinct (map fst (rooms m)) \<and> distinct (map fst (users m)) \<and>
      list_all (\<lambda>(roomId, room). distinct (map fst (r_users room))) (rooms m))"

text \<open>Distinct keys and agreement together, in terms of \<open>get\<close>: the form in which
  the steps are shown to preserve them.\<close>

definition consistent :: "'s manager \<Rightarrow> bool" where
  "consistent m =
     (distinct (map fst (rooms m)) \<and> distinct (map fst (users m)) \<and>
      (\<forall>roomId room. map_of (rooms m) roomId = Some room \<longrightarrow>
         distinct (map fst (r_users room)) \<and>
         (\<forall>userId p. map_of (r_users room) userId = Some p \<longrightarrow>
            p < length (store m) \<and>
            u_id (store m ! p) = userId \<and>
            u_roomId (store m ! p) = roomId \<and>
            map_of (users m) (u_socketId (store m ! p)) = Some p)) \<and>
      (\<forall>socketId p. map_of (users m) socketId = Some p \<longrightarrow>
         p < length (store m) \<and>
         u_socketId (store m ! p) = socketId \<and>
         (\<exists>room. map_of (rooms m) (u_roomId (store m ! p)) = Some room \<and>
                 map_of (r_users room) (u_id (store m ! p)) = Some p)))"

text \<open>No room's \<open>users\<close> holds a session of the connection.\<close>

definition unreferenced :: "'s manager \<Rightarrow> string \<Rightarrow> bool" where
  "unreferenced m socketId =
     (map_of (users m) socketId = None \<and>
      list_all (\<lambda>(roomId, room).
        list_all (\<lambda>(userId, p). u_socketId (store m ! p) \<noteq> socketId) (r_users room)) (rooms m))"

text \<open>No room holds more sessions than \<open>maxUsersPerRoom\<close>.\<close>

definition within_capacity :: "'s manager \<Rightarrow> bool" where
  "within_capacity m =
     list_all (\<lambda>(roomId, room). length (r_users room) \<le> maxUsersPerRoom) (rooms m)"

text \<open>The states reached from the new manager by any sequence of calls of
  \<open>joinRoom\<close>, \<open>getRoom\<close>, \<open>leaveRoom\<close>, \<open>updateActivity\<close> and of the two timer
  callbacks, with any arguments and any readings of the clock.\<close>

inductive reachable :: "'s manager \<Rightarrow> bool" where
  start: "reachable RoomManager"
| join: "reachable m \<Longrightarrow> reachable (snd (joinRoom m socketId roomId username env))"
| lookup: "reachable m \<Longrightarrow> reachable (snd (getRoom m roomId env))"
| leave: "reachable m \<Longrightarrow> reachable (snd (leaveRoom m socketId info_time))"
| activity: "reachable m \<Longrightarrow> reachable (updateActivity m socketId user_time room_time)"
| cleanup: "reachable m \<Longrightarrow> reachable (roomCleanup m roomId now)"
| tick: "reachable m \<Longrightarrow> reachable (cleanupTick m now)"

text \<open>Those of them that are reached when a connection joins only while it
  has no session, the generated user id is new in the room, and the periodic cleanup
  meets no inhabited room that has been idle for more than \<open>roomTimeout\<close>. The
  dispatcher's \<open>getRoom\<close>, which creates a missing room, is a step as well.\<close>

inductive reachable_guarded :: "'s manager \<Rightarrow> bool" where
  start: "reachable_guarded RoomManager"
| join: "reachable_guarded m \<Longrightarrow> map_of (users m) socketId = None \<Longrightarrow>
         map_of (r_users (fst (getRoom m roomId env)))
           (generateUserId (uid_now env) (uid_random env)) = None \<Longrightarrow>
         reachable_guarded (snd (joinRoom m socketId roomId username env))"
| lookup: "reachable_guarded m \<Longrightarrow> reachable_guarded (snd (getRoom m roomId env))"
| leave: "reachable_guarded m \<Longrightarrow> reachable_guarded (snd (leaveRoom m socketId info_time))"
| activity: "reachable_guarded m \<Longrightarrow> reachable_guarded (updateActivity m socketId user_time room_time)"
| cleanup: "reachable_guarded m \<Longrightarrow> reachable_guarded (roomCleanup m roomId now)"
| tick: "reachable_guarded m \<Longrightarrow>
         list_all (\<lambda>(roomId, room). now - r_lastActivity room > roomTimeout \<longrightarrow> r_users room = [])
           (rooms m) \<Longrightarrow>
         reachable_guarded (cleanupTick m now)"

section \<open>Example values\<close>

definition example_op :: "string \<Rightarrow> string \<Rightarrow> clock option \<Rightarrow> int \<Rightarrow> unit operation" where
  "example_op i st c t =
     \<lparr>op_id = i, op_type = STROKE, op_data = Payload (), op_userId = ''u1'',
      op_state = st, op_vectorClock = c, op_timestamp = t, op_roomId = ''r1'',
      op_undoneBy = None, op_undoneAt = None, op_redoneBy = None, op_redoneAt = None\<rparr>"

definition example_log :: "unit oplog" where
  "example_log =
     \<lparr>log_roomId = ''r1'',
      operations = [example_op ''a'' ACTIVE None 1, example_op ''b'' UNDONE None 2],
      vectorClock = [(''u1'', Count 2)], createdAt = 1\<rparr>"

definition many_ops :: "nat \<Rightarrow> unit operation list" where
  "many_ops n = map (\<lambda>k. example_op (replicate (Suc k) CHR ''i'') ACTIVE None 0) [0..<n]"

definition full_log :: "unit oplog" where
  "full_log =
     \<lparr>log_roomId = ''r1'', operations = many_ops maxOperations,
      vectorClock = [], createdAt = 1\<rparr>"

definition example_env :: add_env where
  "example_env = \<lparr>id_now = 0, id_random = ''r'', stamp_now = 0\<rparr>"

definition external_ops :: "unit operation list" where
  "external_ops = [example_op ''b'' UNDONE None 2, example_op ''c'' ACTIVE (Some [(''u2'', Count 1)]) 3]"

definition example_user :: "nat \<Rightarrow> user" where
  "example_user k =
     \<lparr>u_id = ''user_'' @ replicate k CHR ''x'', u_socketId = ''sock_'' @ replicate k CHR ''x'',
      u_name = ''Ann'', u_color = ''#FF6B6B'', u_roomId = ''r1'',
      u_joinedAt = 0, u_lastActivity = 0\<rparr>"

definition full_manager :: "unit manager" where
  "full_manager =
     \<lparr>rooms = [(''r1'',
                \<lparr>r_id = ''r1'',
                 r_users = map (\<lambda>k. (u_id (example_user k), k)) [0..<maxUsersPerRoom],
                 r_operationLog = OperationLog ''r1'' 0,
                 r_createdAt = 0, r_lastActivity = 0\<rparr>)],
      users = map (\<lambda>k. (u_socketId (example_user k), k)) [0..<maxUsersPerRoom],
      store = map example_user [0..<maxUsersPerRoom]\<rparr>"

definition example_join_env :: "string \<Rightarrow> join_env" where
  "example_join_env random =
     \<lparr>log_created_now = 1, room_createdAt = 1, room_lastActivity = 1,
      uid_now = 1, uid_random = random,
      name_adjective = 2, name_noun = 0, name_number = 7, color_hue = 120,
      joined_now = 1, active_now = 1, room_now = 1, info_now = 1\<rparr>"

section \<open>Properties of VectorClock\<close>

lemma compare_loop_flags:
  "compare_loop A B us (l, g) =
     (l \<or> (\<exists>u\<in>set us. less_than (or_zero (get_property A u)) (or_zero (get_property B u))),
      g \<or> (\<exists>u\<in>set us. less_than (or_zero (get_property B u)) (or_zero (get_property A u))))"
  by (induction us arbitrary: l g) (auto simp: Let_def)

lemma set_allUsers: "set (allUsers A B) = fst ` set A \<union> fst ` set B"
  by (auto simp add: allUsers_def)

lemma compare_Some:
  "compare (Some A) (Some B) =
     (if (\<exists>u\<in>set (allUsers A B). less_than (or_zero (get_property A u)) (or_zero (get_property B u))) \<and>
         \<not> (\<exists>u\<in>set (allUsers A B). less_than (or_zero (get_property B u)) (or_zero (get_property A u)))
      then - 1
      else if (\<exists>u\<in>set (allUsers A B). less_than (or_zero (get_property B u)) (or_zero (get_property A u))) \<and>
         \<not> (\<exists>u\<in>set (allUsers A B). less_than (or_zero (get_property A u)) (or_zero (get_property B u)))
      then 1
      else 0)"
  unfolding compare_def
  by (simp only: option.case compare_loop_flags simp_thms prod.case)



lemma compare_antisym: "compare a b = - compare b a"
proof (cases a)
  case None
  then show ?thesis by (simp add: compare_def split: option.split)
next
  case A: (Some A)
  show ?thesis
  proof (cases b)
    case None
    with A show ?thesis by (simp add: compare_def)
  next
    case (Some B)
    have "set (allUsers B A) = set (allUsers A B)" by (auto simp add: set_allUsers)
    with A Some show ?thesis by (simp add: compare_Some)
  qed
qed







text \<open>The user ids that \<open>generateUserId\<close> builds are not names of \<open>Object.prototype\<close>.\<close>

lemma generated_user_id_plain: "generateUserId now random \<notin> set prototype_names"
  by (simp add: generateUserId_def prototype_names_def)






section \<open>Properties of OperationLog\<close>

lemma ACTIVE_neq_UNDONE: "ACTIVE \<noteq> UNDONE" "UNDONE \<noteq> ACTIVE"
  by (simp_all add: ACTIVE_def UNDONE_def)

lemma find_id_None: "(find (\<lambda>op. op_id op = i) ops = None) = (\<forall>op\<in>set ops. op_id op \<noteq> i)"
  by (auto simp add: find_None_iff)

lemma find_id_Some: "find (\<lambda>op. op_id op = i) ops = Some x \<Longrightarrow> op_id x = i \<and> x \<in> set ops"
  by (induction ops) (auto split: if_splits)

lemma find_id_distinct:
  "distinct (map op_id ops) \<Longrightarrow> x \<in> set ops \<Longrightarrow>
   find (\<lambda>op. op_id op = op_id x) ops = Some x"
  by (induction ops) (auto simp add: image_iff)

lemma assign_found_split:
  "find (\<lambda>op. op_id op = i) ops = Some x \<Longrightarrow>
   \<exists>before after. ops = before @ x # after \<and> (\<forall>op\<in>set before. op_id op \<noteq> i) \<and>
      assign_found i x' ops = before @ x' # after"
proof (induction ops)
  case Nil
  then show ?case by simp
next
  case (Cons a ops)
  show ?case
  proof (cases "op_id a = i")
    case True
    with Cons.prems have "a = x" by simp
    with True have "a # ops = [] @ x # ops \<and> (\<forall>op\<in>set []. op_id op \<noteq> i) \<and>
        assign_found i x' (a # ops) = [] @ x' # ops" by simp
    then show ?thesis by blast
  next
    case False
    with Cons.prems have "find (\<lambda>op. op_id op = i) ops = Some x" by simp
    from Cons.IH [OF this] obtain before after where
      h: "ops = before @ x # after" "\<forall>op\<in>set before. op_id op \<noteq> i"
         "assign_found i x' ops = before @ x' # after" by blast
    with False have "a # ops = (a # before) @ x # after \<and> (\<forall>op\<in>set (a # before). op_id op \<noteq> i) \<and>
        assign_found i x' (a # ops) = (a # before) @ x' # after" by simp
    then show ?thesis by blast
  qed
qed

lemma find_assign_found:
  "find (\<lambda>op. op_id op = i) ops = Some x \<Longrightarrow> op_id x' = i \<Longrightarrow>
   find (\<lambda>op. op_id op = i) (assign_found i x' ops) = Some x'"
  by (induction ops) (auto split: if_splits)

lemma assign_found_twice:
  "op_id x' = i \<Longrightarrow> assign_found i x'' (assign_found i x' ops) = assign_found i x'' ops"
  by (induction ops) auto

lemma assign_found_same:
  "find (\<lambda>op. op_id op = i) ops = Some x \<Longrightarrow> assign_found i x ops = ops"
  by (induction ops) (auto split: if_splits)

lemma map_assign_found:
  "find (\<lambda>op. op_id op = i) ops = Some x \<Longrightarrow> f x' = f x \<Longrightarrow>
   map f (assign_found i x' ops) = map f ops"
  by (induction ops) (auto split: if_splits)

lemma undo_success:
  assumes "getOperation L i = Some x" "op_state x = ACTIVE"
  shows "undoOperation L i u now =
     (Success (x\<lparr>op_state := UNDONE, op_undoneBy := Some u, op_undoneAt := Some now\<rparr>),
      L\<lparr>operations := assign_found i
          (x\<lparr>op_state := UNDONE, op_undoneBy := Some u, op_undoneAt := Some now\<rparr>) (operations L)\<rparr>)"
  using assms by (simp add: undoOperation_def getOperation_def Let_def)

lemma undo_not_found:
  "getOperation L i = None \<Longrightarrow> undoOperation L i u now = (Failure ''Operation not found'', L)"
  by (simp add: undoOperation_def getOperation_def)

lemma undo_wrong_state:
  "getOperation L i = Some x \<Longrightarrow> op_state x \<noteq> ACTIVE \<Longrightarrow>
   undoOperation L i u now = (Failure ''Operation already undone'', L)"
  by (simp add: undoOperation_def getOperation_def)

lemma redo_success:
  assumes "getOperation L i = Some x" "op_state x = UNDONE"
  shows "redoOperation L i u now =
     (Success (x\<lparr>op_state := ACTIVE, op_redoneBy := Some u, op_redoneAt := Some now\<rparr>),
      L\<lparr>operations := assign_found i
          (x\<lparr>op_state := ACTIVE, op_redoneBy := Some u, op_redoneAt := Some now\<rparr>) (operations L)\<rparr>)"
  using assms by (simp add: redoOperation_def getOperation_def Let_def)

lemma redo_wrong_state:
  "getOperation L i = Some x \<Longrightarrow> op_state x \<noteq> UNDONE \<Longrightarrow>
   redoOperation L i u now = (Failure ''Operation is not undone'', L)"
  by (simp add: redoOperation_def getOperation_def)

lemma getOperation_assigned:
  "getOperation L i = Some x \<Longrightarrow> op_id x' = op_id x \<Longrightarrow>
   getOperation (L\<lparr>operations := assign_found i x' (operations L)\<rparr>) i = Some x'"
  unfolding getOperation_def using find_id_Some [of i "operations L" x]
  by (simp add: find_assign_found)

text \<open>
  Claim C1. \<open>undoOperation(id, user)\<close> succeeds if and only if the log holds an operation
  with that id (the one \<open>find\<close> returns; with unique ids, the only one) and its state
  is \<open>'active'\<close>. On success that
  entry, and no other, gets state \<open>'undone'\<close>, \<open>undoneBy\<close> and \<open>undoneAt\<close>. On failure the
  result is \<open>Operation not found\<close> or \<open>Operation already undone\<close> and the log is
  unchanged; so a second undo right after a successful one fails and the state stays
  \<open>'undone'\<close>.
\<close>

theorem C1_undo:
  "((\<exists>x'. fst (undoOperation L i u now) = Success x') =
      (\<exists>x. getOperation L i = Some x \<and> op_state x = ACTIVE)) \<and>
   ((getOperation L i = None) = (\<forall>op\<in>set (operations L). op_id op \<noteq> i)) \<and>
   (distinct (map op_id (operations L)) \<longrightarrow>
      (\<exists>x'. fst (undoOperation L i u now) = Success x') =
      (\<exists>op\<in>set (operations L). op_id op = i \<and> op_state op = ACTIVE)) \<and>
   (getOperation L i = None \<longrightarrow>
      undoOperation L i u now = (Failure ''Operation not found'', L)) \<and>
   (\<forall>x. getOperation L i = Some x \<and> op_state x \<noteq> ACTIVE \<longrightarrow>
      undoOperation L i u now = (Failure ''Operation already undone'', L)) \<and>
   (\<forall>x. getOperation L i = Some x \<and> op_state x = ACTIVE \<longrightarrow>
      (\<exists>x' L' before after.
         undoOperation L i u now = (Success x', L') \<and>
         x' = x\<lparr>op_state := UNDONE, op_undoneBy := Some u, op_undoneAt := Some now\<rparr> \<and>
         operations L = before @ x # after \<and> (\<forall>op\<in>set before. op_id op \<noteq> i) \<and>
         L' = L\<lparr>operations := before @ x' # after\<rparr> \<and>
         getOperation L' i = Some x' \<and>
         undoOperation L' i u2 now2 = (Failure ''Operation already undone'', L')))"
proof (intro conjI allI impI)
  show iff: "(\<exists>x'. fst (undoOperation L i u now) = Success x') =
      (\<exists>x. getOperation L i = Some x \<and> op_state x = ACTIVE)"
  proof (cases "getOperation L i")
    case None
    then show ?thesis by (simp add: undo_not_found)
  next
    case (Some x)
    then show ?thesis
      by (cases "op_state x = ACTIVE") (simp_all add: undo_wrong_state undo_success)
  qed
  show "(\<exists>x'. fst (undoOperation L i u now) = Success x') =
      (\<exists>op\<in>set (operations L). op_id op = i \<and> op_state op = ACTIVE)"
    if "distinct (map op_id (operations L))"
    unfolding iff getOperation_def using find_id_distinct [OF that] find_id_Some by blast
  show "(getOperation L i = None) = (\<forall>op\<in>set (operations L). op_id op \<noteq> i)"
    unfolding getOperation_def by (rule find_id_None)
  show "undoOperation L i u now = (Failure ''Operation not found'', L)" if "getOperation L i = None"
    using that by (rule undo_not_found)
  show "undoOperation L i u now = (Failure ''Operation already undone'', L)"
    if "getOperation L i = Some x \<and> op_state x \<noteq> ACTIVE" for x
    using that by (simp add: undo_wrong_state)
next
  fix x
  assume h: "getOperation L i = Some x \<and> op_state x = ACTIVE"
  define x' where "x' = x\<lparr>op_state := UNDONE, op_undoneBy := Some u, op_undoneAt := Some now\<rparr>"
  define L' where "L' = L\<lparr>operations := assign_found i x' (operations L)\<rparr>"
  from h have f: "find (\<lambda>op. op_id op = i) (operations L) = Some x"
    by (simp add: getOperation_def)
  from assign_found_split [OF f, of x'] obtain before after where
    s: "operations L = before @ x # after" "\<forall>op\<in>set before. op_id op \<noteq> i"
       "assign_found i x' (operations L) = before @ x' # after" by blast
  have u1: "undoOperation L i u now = (Success x', L')"
    using h by (simp add: undo_success x'_def L'_def)
  have g: "getOperation L' i = Some x'"
    unfolding L'_def using h by (intro getOperation_assigned) (simp_all add: x'_def)
  have "op_state x' \<noteq> ACTIVE" by (simp add: x'_def ACTIVE_neq_UNDONE)
  with g have u2: "undoOperation L' i u2 now2 = (Failure ''Operation already undone'', L')"
    by (rule undo_wrong_state)
  from u1 s g u2 show "\<exists>x' L' before after.
         undoOperation L i u now = (Success x', L') \<and>
         x' = x\<lparr>op_state := UNDONE, op_undoneBy := Some u, op_undoneAt := Some now\<rparr> \<and>
         operations L = before @ x # after \<and> (\<forall>op\<in>set before. op_id op \<noteq> i) \<and>
         L' = L\<lparr>operations := before @ x' # after\<rparr> \<and>
         getOperation L' i = Some x' \<and>
         undoOperation L' i u2 now2 = (Failure ''Operation already undone'', L')"
    unfolding x'_def [symmetric] L'_def by (intro exI [of _ x'] exI [of _ L'] exI [of _ before] exI [of _ after]) (simp add: L'_def)
qed

theorem C1_undo_witness:
  "distinct (map op_id (operations example_log)) \<and>
   getOperation example_log ''a'' = Some (example_op ''a'' ACTIVE None 1) \<and>
   op_state (example_op ''a'' ACTIVE None 1) = ACTIVE \<and>
   (\<exists>x'. fst (undoOperation example_log ''a'' ''u2'' 9) = Success x') \<and>
   getOperation example_log ''c'' = None \<and>
   undoOperation example_log ''c'' ''u2'' 9 = (Failure ''Operation not found'', example_log) \<and>
   getOperation example_log ''b'' = Some (example_op ''b'' UNDONE None 2) \<and>
   undoOperation example_log ''b'' ''u2'' 9 = (Failure ''Operation already undone'', example_log)"
proof -
  have a: "getOperation example_log ''a'' = Some (example_op ''a'' ACTIVE None 1)"
    and b: "getOperation example_log ''b'' = Some (example_op ''b'' UNDONE None 2)"
    and c: "getOperation example_log ''c'' = None"
    by (simp_all add: getOperation_def example_log_def example_op_def)
  have s: "op_state (example_op ''a'' ACTIVE None 1) = ACTIVE"
    "op_state (example_op ''b'' UNDONE None 2) \<noteq> ACTIVE"
    by (simp_all add: example_op_def ACTIVE_neq_UNDONE)
  have d: "distinct (map op_id (operations example_log))"
    by (simp add: example_log_def example_op_def)
  from a b c d s C1_undo [of example_log "''a''" "''u2''" 9]
    C1_undo [of example_log "''b''" "''u2''" 9] C1_undo [of example_log "''c''" "''u2''" 9]
  show ?thesis by blast
qed

text \<open>
  Claim C7. When the operation with the id is \<open>'active'\<close>: the undo succeeds, the redo after
  it succeeds and returns the state to \<open>'active'\<close> with \<open>redoneBy\<close> and \<open>redoneAt\<close>
  recorded, the states of all entries are as before the undo, and one more redo fails
  and changes nothing.
\<close>

theorem C7_undo_redo:
  "\<forall>x. getOperation L i = Some x \<and> op_state x = ACTIVE \<longrightarrow>
     (\<exists>x1 L1 x2 L2.
        undoOperation L i u t1 = (Success x1, L1) \<and>
        redoOperation L1 i u' t2 = (Success x2, L2) \<and>
        x2 = x\<lparr>op_undoneBy := Some u, op_undoneAt := Some t1,
               op_redoneBy := Some u', op_redoneAt := Some t2\<rparr> \<and>
        op_state x2 = ACTIVE \<and>
        getOperation L2 i = Some x2 \<and>
        map op_state (operations L2) = map op_state (operations L) \<and>
        redoOperation L2 i u'' t3 = (Failure ''Operation is not undone'', L2))"
proof (intro allI impI)
  fix x
  assume h: "getOperation L i = Some x \<and> op_state x = ACTIVE"
  define x1 where "x1 = x\<lparr>op_state := UNDONE, op_undoneBy := Some u, op_undoneAt := Some t1\<rparr>"
  define L1 where "L1 = L\<lparr>operations := assign_found i x1 (operations L)\<rparr>"
  define x2 where "x2 = x1\<lparr>op_state := ACTIVE, op_redoneBy := Some u', op_redoneAt := Some t2\<rparr>"
  define L2 where "L2 = L1\<lparr>operations := assign_found i x2 (operations L1)\<rparr>"
  from h have f: "find (\<lambda>op. op_id op = i) (operations L) = Some x"
    by (simp add: getOperation_def)
  from find_id_Some [OF f] have idx: "op_id x = i" by simp
  have u1: "undoOperation L i u t1 = (Success x1, L1)"
    using h by (simp add: undo_success x1_def L1_def)
  have g1: "getOperation L1 i = Some x1"
    unfolding L1_def using h by (intro getOperation_assigned) (simp_all add: x1_def)
  have r1: "redoOperation L1 i u' t2 = (Success x2, L2)"
    using g1 by (simp add: redo_success x2_def L2_def x1_def)
  have g2: "getOperation L2 i = Some x2"
    unfolding L2_def using g1 by (intro getOperation_assigned) (simp_all add: x2_def)
  have x2: "x2 = x\<lparr>op_undoneBy := Some u, op_undoneAt := Some t1,
               op_redoneBy := Some u', op_redoneAt := Some t2\<rparr>"
    using h by (simp add: x2_def x1_def)
  have st: "op_state x2 = ACTIVE" by (simp add: x2_def)
  have ops2: "operations L2 = assign_found i x2 (operations L)"
    by (simp add: L2_def L1_def assign_found_twice x1_def idx)
  have m: "map op_state (operations L2) = map op_state (operations L)"
    unfolding ops2 using f by (rule map_assign_found) (simp add: st h)
  from st have "op_state x2 \<noteq> UNDONE" by (simp add: ACTIVE_neq_UNDONE)
  with g2 have r2: "redoOperation L2 i u'' t3 = (Failure ''Operation is not undone'', L2)"
    by (rule redo_wrong_state)
  from u1 r1 x2 st g2 m r2 show "\<exists>x1 L1 x2 L2.
        undoOperation L i u t1 = (Success x1, L1) \<and>
        redoOperation L1 i u' t2 = (Success x2, L2) \<and>
        x2 = x\<lparr>op_undoneBy := Some u, op_undoneAt := Some t1,
               op_redoneBy := Some u', op_redoneAt := Some t2\<rparr> \<and>
        op_state x2 = ACTIVE \<and>
        getOperation L2 i = Some x2 \<and>
        map op_state (operations L2) = map op_state (operations L) \<and>
        redoOperation L2 i u'' t3 = (Failure ''Operation is not undone'', L2)"
    by blast
qed

theorem C7_undo_redo_witness:
  "getOperation example_log ''a'' = Some (example_op ''a'' ACTIVE None 1) \<and>
   op_state (example_op ''a'' ACTIVE None 1) = ACTIVE \<and>
   (\<exists>x1 L1 x2 L2.
      undoOperation example_log ''a'' ''u2'' 5 = (Success x1, L1) \<and>
      redoOperation L1 ''a'' ''u3'' 6 = (Success x2, L2) \<and>
      op_state x2 = ACTIVE \<and>
      redoOperation L2 ''a'' ''u4'' 7 = (Failure ''Operation is not undone'', L2))"
proof -
  have a: "getOperation example_log ''a'' = Some (example_op ''a'' ACTIVE None 1)"
    by (simp add: getOperation_def example_log_def example_op_def)
  have s: "op_state (example_op ''a'' ACTIVE None 1) = ACTIVE"
    by (simp add: example_op_def)
  from a s C7_undo_redo [of example_log "''a''" "''u2''" 5 "''u3''" 6 "''u4''" 7]
  show ?thesis by blast
qed

lemma maxOperations_pos: "0 < maxOperations"
  by (simp add: maxOperations_def)

lemma operations_trim:
  "operations (trimOperations L) = drop (length (operations L) - maxOperations) (operations L)"
  by (simp add: trimOperations_def Let_def)

lemma trim_other_fields:
  "vectorClock (trimOperations L) = vectorClock L"
  "log_roomId (trimOperations L) = log_roomId L"
  "createdAt (trimOperations L) = createdAt L"
  by (simp_all add: trimOperations_def Let_def)

lemma length_trim: "length (operations (trimOperations L)) \<le> maxOperations"
  by (simp add: operations_trim)

lemma trim_id: "length (operations L) \<le> maxOperations \<Longrightarrow> trimOperations L = L"
  by (simp add: trimOperations_def)

lemma operations_add:
  "operations (snd (addOperation L userId type data env)) =
     drop (Suc (length (operations L)) - maxOperations) (operations L) @
       [fst (addOperation L userId type data env)]"
proof -
  have "Suc (length (operations L)) - maxOperations \<le> length (operations L)"
    using maxOperations_pos by arith
  then show ?thesis
    by (simp add: addOperation_def Let_def operations_trim)
qed

lemma fst_add:
  "fst (addOperation L userId type data env) =
     \<lparr>op_id = generateOperationId userId (id_now env) (id_random env),
      op_type = type, op_data = data, op_userId = userId, op_state = ACTIVE,
      op_vectorClock = Some (increment (vectorClock L) userId),
      op_timestamp = stamp_now env, op_roomId = log_roomId L,
      op_undoneBy = None, op_undoneAt = None, op_redoneBy = None, op_redoneAt = None\<rparr>"
  by (simp add: addOperation_def Let_def)

lemma length_add: "length (operations (snd (addOperation L userId type data env))) \<le> maxOperations"
  by (simp add: addOperation_def Let_def length_trim)

lemma length_addOperations:
  "length (operations L) \<le> maxOperations \<Longrightarrow>
   length (operations (addOperations L calls)) \<le> maxOperations"
proof (induction calls arbitrary: L)
  case Nil
  then show ?case by simp
next
  case (Cons c calls)
  obtain userId type data env where c: "c = (userId, type, data, env)"
    by (cases c) auto
  show ?case unfolding c addOperations.simps
    by (rule Cons.IH) (rule length_add)
qed

text \<open>
  Claim C4. After \<open>addOperation\<close>, and so after every sequence of \<open>addOperation\<close> calls
  on a new log, the log holds at most \<open>maxOperations\<close> = 1000 entries. An append to a log
  at the cap removes exactly the front entry, whatever its state; with unique ids, an
  undo of the removed id then fails with \<open>Operation not found\<close>.
\<close>

theorem C4_log_cap:
  "length (operations (snd (addOperation L userId type data env))) \<le> maxOperations \<and>
   length (operations (addOperations (OperationLog room now) calls)) \<le> maxOperations \<and>
   maxOperations = 1000 \<and>
   (length (operations L) = maxOperations \<longrightarrow>
      operations (snd (addOperation L userId type data env)) =
        tl (operations L) @ [fst (addOperation L userId type data env)]) \<and>
   (length (operations L) = maxOperations \<and> distinct (map op_id (operations L)) \<and>
    generateOperationId userId (id_now env) (id_random env) \<notin> set (map op_id (operations L)) \<longrightarrow>
      undoOperation (snd (addOperation L userId type data env)) (op_id (hd (operations L))) u now2 =
        (Failure ''Operation not found'', snd (addOperation L userId type data env)))"
proof (intro conjI impI)
  show "length (operations (snd (addOperation L userId type data env))) \<le> maxOperations"
    by (rule length_add)
  show "length (operations (addOperations (OperationLog room now) calls)) \<le> maxOperations"
    by (rule length_addOperations) (simp add: OperationLog_def)
  show "maxOperations = 1000" by (rule maxOperations_def)
  show front: "operations (snd (addOperation L userId type data env)) =
        tl (operations L) @ [fst (addOperation L userId type data env)]"
    if "length (operations L) = maxOperations"
    using that maxOperations_pos by (simp add: operations_add Suc_diff_le drop_Suc)
next
  assume h: "length (operations L) = maxOperations \<and> distinct (map op_id (operations L)) \<and>
    generateOperationId userId (id_now env) (id_random env) \<notin> set (map op_id (operations L))"
  define L' where "L' = snd (addOperation L userId type data env)"
  from h maxOperations_pos obtain x xs where xs: "operations L = x # xs"
    by (cases "operations L") auto
  from h maxOperations_pos have ops': "operations L' = xs @ [fst (addOperation L userId type data env)]"
    by (simp add: L'_def operations_add Suc_diff_le drop_Suc xs)
  from h have "op_id x \<notin> op_id ` set xs" by (simp add: xs)
  then have "\<forall>op\<in>set xs. op_id op \<noteq> op_id x" by (metis imageI)
  moreover from h have "op_id (fst (addOperation L userId type data env)) \<noteq> op_id x"
    by (simp add: fst_add xs)
  ultimately have "\<forall>op\<in>set (operations L'). op_id op \<noteq> op_id x"
    unfolding ops' by simp
  then have "getOperation L' (op_id x) = None"
    by (simp add: getOperation_def find_id_None)
  then have "undoOperation L' (op_id x) u now2 = (Failure ''Operation not found'', L')"
    by (rule undo_not_found)
  then show "undoOperation (snd (addOperation L userId type data env)) (op_id (hd (operations L))) u now2 =
        (Failure ''Operation not found'', snd (addOperation L userId type data env))"
    by (simp add: L'_def xs)
qed

lemma length_many_ops: "length (many_ops n) = n"
  by (simp add: many_ops_def)

lemma ids_many_ops: "map op_id (many_ops n) = map (\<lambda>k. replicate (Suc k) CHR ''i'') [0..<n]"
  by (simp add: many_ops_def example_op_def)

lemma distinct_many_ops: "distinct (map op_id (many_ops n))"
  unfolding ids_many_ops
  by (rule iffD2 [OF distinct_map]) (auto intro: inj_onI dest: arg_cong [where f = length])

lemma fresh_many_ops: "CHR ''u'' \<in> set i \<Longrightarrow> i \<notin> set (map op_id (many_ops n))"
  unfolding ids_many_ops by auto

lemma example_id: "generateOperationId ''u1'' (id_now example_env) (id_random example_env) = ''u1_0_r''"
  by (simp add: generateOperationId_def example_env_def dec_int_def dec_nat.simps)

theorem C4_log_cap_witness:
  "length (operations full_log) = maxOperations \<and>
   distinct (map op_id (operations full_log)) \<and>
   generateOperationId ''u1'' (id_now example_env) (id_random example_env)
     \<notin> set (map op_id (operations full_log)) \<and>
   operations (snd (addOperation full_log ''u1'' STROKE (Payload ()) example_env)) =
     tl (operations full_log) @ [fst (addOperation full_log ''u1'' STROKE (Payload ()) example_env)] \<and>
   undoOperation (snd (addOperation full_log ''u1'' STROKE (Payload ()) example_env))
       (op_id (hd (operations full_log))) ''u2'' 5 =
     (Failure ''Operation not found'', snd (addOperation full_log ''u1'' STROKE (Payload ()) example_env))"
proof -
  have l: "length (operations full_log) = maxOperations"
    by (simp add: full_log_def length_many_ops)
  have d: "distinct (map op_id (operations full_log))"
    by (simp add: full_log_def distinct_many_ops)
  have f: "generateOperationId ''u1'' (id_now example_env) (id_random example_env)
     \<notin> set (map op_id (operations full_log))"
    unfolding example_id full_log_def oplog.simps by (rule fresh_many_ops) simp
  from l d f C4_log_cap [of full_log "''u1''" STROKE "Payload ()" example_env "''r1''" 0 "[]" "''u2''" 5]
  show ?thesis by blast
qed

lemma length_mark_undone: "length (mark_undone cid u un i ops) = length ops"
  by (induction ops arbitrary: i) auto

lemma mark_undone_append:
  "mark_undone cid u un i (xs @ ys) =
     mark_undone cid u un i xs @ mark_undone cid u un (i + length xs) ys"
  by (induction xs arbitrary: i) auto

lemma nth_mark_undone:
  "j < length ops \<Longrightarrow>
   mark_undone cid u un i ops ! j =
     (if op_id (ops ! j) \<noteq> cid \<and> op_state (ops ! j) = ACTIVE
      then (ops ! j)\<lparr>op_state := UNDONE, op_undoneBy := Some u, op_undoneAt := Some (un (i + j))\<rparr>
      else ops ! j)"
proof (induction ops arbitrary: i j)
  case Nil
  then show ?case by simp
next
  case (Cons a ops)
  show ?case
  proof (cases j)
    case 0
    then show ?thesis by simp
  next
    case (Suc k)
    with Cons.prems have "k < length ops" by simp
    from Cons.IH [OF this, of "Suc i"] Suc show ?thesis by simp
  qed
qed

lemma active_mark_undone:
  "filter (\<lambda>op. op_state op = ACTIVE) (mark_undone cid u un i ops) =
   filter (\<lambda>op. op_id op = cid \<and> op_state op = ACTIVE) ops"
  by (induction ops arbitrary: i) (auto simp add: ACTIVE_neq_UNDONE)

text \<open>
  Claim C2. \<open>clearOperations(userId)\<close> appends one new operation of type \<open>'clear'\<close> and
  state \<open>'active'\<close>; every other entry that was \<open>'active'\<close> becomes \<open>'undone'\<close> with
  \<open>undoneBy\<close> the acting user, and the entries that were not active are untouched; the
  active operations are then exactly the new clear operation. An entry counts as
  another one by its id, so the last two statements are for a clear operation whose
  generated id is new in the log (ids are unique within a room).
\<close>

theorem C2_clear:
  "\<exists>clearOp L' old.
     clearOperations L userId data_now env undone_now = (clearOp, L') \<and>
     old = drop (Suc (length (operations L)) - maxOperations) (operations L) \<and>
     op_id clearOp = generateOperationId userId (id_now env) (id_random env) \<and>
     op_type clearOp = CLEAR \<and> op_state clearOp = ACTIVE \<and> op_userId clearOp = userId \<and>
     length (operations L') = Suc (length old) \<and>
     operations L' ! length old = clearOp \<and>
     (\<forall>j<length old.
        operations L' ! j =
          (if op_id (old ! j) \<noteq> op_id clearOp \<and> op_state (old ! j) = ACTIVE
           then (old ! j)\<lparr>op_state := UNDONE, op_undoneBy := Some userId,
                          op_undoneAt := Some (undone_now j)\<rparr>
           else old ! j)) \<and>
     (op_id clearOp \<notin> op_id ` set (operations L) \<longrightarrow>
        (\<forall>j<length old.
           operations L' ! j =
             (if op_state (old ! j) = ACTIVE
              then (old ! j)\<lparr>op_state := UNDONE, op_undoneBy := Some userId,
                             op_undoneAt := Some (undone_now j)\<rparr>
              else old ! j)) \<and>
        getActiveOperations L' = [clearOp])"
proof -
  define data where "data = (Cleared (length (getActiveOperations L)) data_now :: 'a op_data)"
  define clearOp where "clearOp = fst (addOperation L userId CLEAR data env)"
  define L1 where "L1 = snd (addOperation L userId CLEAR data env)"
  define old where "old = drop (Suc (length (operations L)) - maxOperations) (operations L)"
  define L' where
    "L' = L1\<lparr>operations := mark_undone (op_id clearOp) userId undone_now 0 (operations L1)\<rparr>"
  have cid: "op_id clearOp = generateOperationId userId (id_now env) (id_random env)"
    and ty: "op_type clearOp = CLEAR" and st: "op_state clearOp = ACTIVE"
    and us: "op_userId clearOp = userId"
    by (simp_all add: clearOp_def fst_add)
  have ops1: "operations L1 = old @ [clearOp]"
    by (simp add: L1_def old_def clearOp_def operations_add)
  have res: "clearOperations L userId data_now env undone_now = (clearOp, L')"
    by (simp add: clearOperations_def data_def [symmetric] clearOp_def L1_def L'_def split: prod.split)
  have ops': "operations L' = mark_undone (op_id clearOp) userId undone_now 0 old @ [clearOp]"
    by (simp add: L'_def ops1 mark_undone_append)
  have len: "length (operations L') = Suc (length old)"
    by (simp add: ops' length_mark_undone)
  have lst: "operations L' ! length old = clearOp"
    unfolding ops' using length_mark_undone [of "op_id clearOp" userId undone_now 0 old]
    by (metis nth_append_length)
  have marks: "\<forall>j<length old.
        operations L' ! j =
          (if op_id (old ! j) \<noteq> op_id clearOp \<and> op_state (old ! j) = ACTIVE
           then (old ! j)\<lparr>op_state := UNDONE, op_undoneBy := Some userId,
                          op_undoneAt := Some (undone_now j)\<rparr>
           else old ! j)"
    by (simp add: ops' nth_append length_mark_undone nth_mark_undone)
  have unique: "(\<forall>j<length old.
           operations L' ! j =
             (if op_state (old ! j) = ACTIVE
              then (old ! j)\<lparr>op_state := UNDONE, op_undoneBy := Some userId,
                             op_undoneAt := Some (undone_now j)\<rparr>
              else old ! j)) \<and>
        getActiveOperations L' = [clearOp]"
    if fresh: "op_id clearOp \<notin> op_id ` set (operations L)"
  proof
    have old_ids: "\<forall>op\<in>set old. op_id op \<noteq> op_id clearOp"
    proof
      fix op assume "op \<in> set old"
      then have "op \<in> set (operations L)" unfolding old_def by (rule in_set_dropD)
      with fresh show "op_id op \<noteq> op_id clearOp" by (metis imageI)
    qed
    show "\<forall>j<length old.
           operations L' ! j =
             (if op_state (old ! j) = ACTIVE
              then (old ! j)\<lparr>op_state := UNDONE, op_undoneBy := Some userId,
                             op_undoneAt := Some (undone_now j)\<rparr>
              else old ! j)"
    proof (intro allI impI)
      fix j assume j: "j < length old"
      then have "old ! j \<in> set old" by simp
      with old_ids have "op_id (old ! j) \<noteq> op_id clearOp" by blast
      with marks j show "operations L' ! j =
             (if op_state (old ! j) = ACTIVE
              then (old ! j)\<lparr>op_state := UNDONE, op_undoneBy := Some userId,
                             op_undoneAt := Some (undone_now j)\<rparr>
              else old ! j)"
        by simp
    qed
    have "filter (\<lambda>op. op_id op = op_id clearOp \<and> op_state op = ACTIVE) old = []"
      using old_ids by (simp add: filter_empty_conv)
    then show "getActiveOperations L' = [clearOp]"
      by (simp add: getActiveOperations_def ops' active_mark_undone st)
  qed
  from res cid ty st us len lst marks unique show ?thesis
    unfolding old_def by blast
qed

theorem C2_clear_witness:
  "generateOperationId ''u1'' (id_now example_env) (id_random example_env)
     \<notin> op_id ` set (operations example_log) \<and>
   (\<exists>clearOp L'.
      clearOperations example_log ''u1'' 3 example_env (\<lambda>i. 4) = (clearOp, L') \<and>
      op_type clearOp = CLEAR \<and> length (operations L') = 3 \<and>
      getActiveOperations L' = [clearOp])"
proof -
  have f: "generateOperationId ''u1'' (id_now example_env) (id_random example_env)
     \<notin> op_id ` set (operations example_log)"
    by (simp add: example_id example_log_def example_op_def)
  have l: "length (operations example_log) = 2" by (simp add: example_log_def)
  from C2_clear [of example_log "''u1''" 3 example_env "\<lambda>i. 4"]
  obtain clearOp L' where
    r: "clearOperations example_log ''u1'' 3 example_env (\<lambda>i. 4) = (clearOp, L')"
    and i: "op_id clearOp = generateOperationId ''u1'' (id_now example_env) (id_random example_env)"
    and t: "op_type clearOp = CLEAR"
    and n: "length (operations L') =
        Suc (length (drop (Suc (length (operations example_log)) - maxOperations)
               (operations example_log)))"
    and a: "op_id clearOp \<notin> op_id ` set (operations example_log) \<longrightarrow>
        getActiveOperations L' = [clearOp]"
    by blast
  from n l have "length (operations L') = 3" by (simp add: maxOperations_def)
  moreover from a i f have "getActiveOperations L' = [clearOp]" by simp
  ultimately show ?thesis using f r t by blast
qed





lemma sort_cmp_antisym: "sort_cmp a b = - sort_cmp b a"
  unfolding sort_cmp_def Let_def using compare_antisym [of "op_vectorClock a" "op_vectorClock b"]
  by auto

lemma set_js_insert: "set (js_insert cmp x xs) = insert x (set xs)"
  by (induction xs) auto

lemma set_js_sort: "set (js_sort cmp xs) = set xs"
  by (induction xs) (simp_all add: js_sort_def set_js_insert)

lemma length_js_insert: "length (js_insert cmp x xs) = Suc (length xs)"
  by (induction xs) auto

lemma length_js_sort: "length (js_sort cmp xs) = length xs"
  by (induction xs) (simp_all add: js_sort_def length_js_insert)

lemma successively_tail: "successively R (x # xs) \<Longrightarrow> successively R xs"
  by (cases xs) simp_all

lemma js_insert_ordered:
  assumes asym: "\<And>a b. \<not> cmp a b \<le> 0 \<Longrightarrow> cmp b a \<le> 0"
  shows "successively (\<lambda>a b. cmp a b \<le> 0) xs \<Longrightarrow>
         successively (\<lambda>a b. cmp a b \<le> 0) (js_insert cmp x xs)"
proof (induction xs)
  case Nil
  then show ?case by simp
next
  case (Cons y ys)
  show ?case
  proof (cases "cmp x y \<le> 0")
    case True
    with Cons.prems show ?thesis by simp
  next
    case False
    then have yx: "cmp y x \<le> 0" by (rule asym)
    from Cons.prems have "successively (\<lambda>a b. cmp a b \<le> 0) ys"
      by (rule successively_tail)
    then have ih: "successively (\<lambda>a b. cmp a b \<le> 0) (js_insert cmp x ys)" by (rule Cons.IH)
    have hd: "cmp y (hd (js_insert cmp x ys)) \<le> 0"
    proof (cases ys)
      case Nil
      with yx show ?thesis by simp
    next
      case (Cons z zs)
      with Cons.prems have "cmp y z \<le> 0" by simp
      with yx Cons show ?thesis by simp
    qed
    from False ih hd show ?thesis by (simp add: successively_Cons)
  qed
qed

lemma js_sort_ordered:
  assumes asym: "\<And>a b. \<not> cmp a b \<le> 0 \<Longrightarrow> cmp b a \<le> 0"
  shows "successively (\<lambda>a b. cmp a b \<le> 0) (js_sort cmp xs)"
proof (induction xs)
  case Nil
  then show ?case by (simp add: js_sort_def)
next
  case (Cons x xs)
  have "js_sort cmp (x # xs) = js_insert cmp x (js_sort cmp xs)" by (simp add: js_sort_def)
  with js_insert_ordered [of cmp, OF asym Cons.IH] show ?case by simp
qed

lemma js_sort_fixed:
  "successively (\<lambda>a b. cmp a b \<le> 0) xs \<Longrightarrow> js_sort cmp xs = xs"
proof (induction xs)
  case Nil
  then show ?case by (simp add: js_sort_def)
next
  case (Cons x xs)
  from Cons.prems have "successively (\<lambda>a b. cmp a b \<le> 0) xs" by (rule successively_tail)
  then have "js_sort cmp xs = xs" by (rule Cons.IH)
  then have "js_sort cmp (x # xs) = js_insert cmp x xs" by (simp add: js_sort_def)
  also from Cons.prems have "\<dots> = x # xs" by (cases xs) simp_all
  finally show ?case .
qed

lemma successively_drop:
  "successively R xs \<Longrightarrow> successively R (drop k xs)"
  using successively_append_iff [of R "take k xs" "drop k xs"] by simp

lemma sortEvents_ordered: "successively (\<lambda>a b. sort_cmp a b \<le> 0) (sortEvents xs)"
  unfolding sortEvents_def
proof (rule js_sort_ordered)
  fix a b :: "'a operation"
  assume "\<not> sort_cmp a b \<le> 0"
  with sort_cmp_antisym [of b a] show "sort_cmp b a \<le> 0" by simp
qed

lemma sortEvents_fixed:
  "successively (\<lambda>a b. sort_cmp a b \<le> 0) xs \<Longrightarrow> sortEvents xs = xs"
  unfolding sortEvents_def by (rule js_sort_fixed)

lemma update_clocks_Nil [simp]:
  "fold (\<lambda>op c. if op_vectorClock op \<noteq> None then update c (op_vectorClock op) else c) [] c = c"
  by simp

lemma operations_merge:
  "operations (snd (mergeOperations L ops)) =
     drop (length (operations L) +
            length (filter (\<lambda>op. op_id op \<notin> set (map op_id (operations L))) ops) - maxOperations)
       (sortEvents (operations L @ filter (\<lambda>op. op_id op \<notin> set (map op_id (operations L))) ops))"
  by (simp add: mergeOperations_def Let_def operations_trim sortEvents_def length_js_sort)

lemma merged_merge:
  "merged (fst (mergeOperations L ops)) =
     length (filter (\<lambda>op. op_id op \<notin> set (map op_id (operations L))) ops)"
  by (simp add: mergeOperations_def Let_def)

lemma merge_nothing_new:
  assumes known: "set (map op_id ops) \<subseteq> set (map op_id (operations L))"
    and ordered: "successively (\<lambda>a b. sort_cmp a b \<le> 0) (operations L)"
    and len: "length (operations L) \<le> maxOperations"
  shows "mergeOperations L ops = (\<lparr>merged = 0, total = length (operations L)\<rparr>, L)"
proof -
  from known have "filter (\<lambda>op. op_id op \<notin> set (map op_id (operations L))) ops = []"
    by (auto simp add: filter_empty_conv)
  with len show ?thesis
    by (simp add: mergeOperations_def Let_def sortEvents_fixed [OF ordered] trim_id)
qed

lemma merge_ordered:
  "successively (\<lambda>a b. sort_cmp a b \<le> 0) (operations (snd (mergeOperations L ops)))"
  unfolding operations_merge by (rule successively_drop) (rule sortEvents_ordered)

lemma merge_length: "length (operations (snd (mergeOperations L ops))) \<le> maxOperations"
  by (simp add: mergeOperations_def Let_def length_trim)

text \<open>
  Claim C6, amended. When every id of \<open>ops\<close> is in the log after the first
  \<open>mergeOperations(ops)\<close>, the second call merges 0 operations and leaves the log as it
  is: operations, vector clock and all. That is the case whenever the first call trims
  nothing, the log and the new operations together being at most \<open>maxOperations\<close>.
\<close>

theorem C6_merge_twice:
  "(set (map op_id ops) \<subseteq> set (map op_id (operations (snd (mergeOperations L ops)))) \<longrightarrow>
      mergeOperations (snd (mergeOperations L ops)) ops =
        (\<lparr>merged = 0, total = length (operations (snd (mergeOperations L ops)))\<rparr>,
         snd (mergeOperations L ops))) \<and>
   (length (operations L) +
      length (filter (\<lambda>op. op_id op \<notin> set (map op_id (operations L))) ops) \<le> maxOperations \<longrightarrow>
    set (map op_id ops) \<subseteq> set (map op_id (operations (snd (mergeOperations L ops)))))"
proof (intro conjI impI)
  assume "set (map op_id ops) \<subseteq> set (map op_id (operations (snd (mergeOperations L ops))))"
  then show "mergeOperations (snd (mergeOperations L ops)) ops =
        (\<lparr>merged = 0, total = length (operations (snd (mergeOperations L ops)))\<rparr>,
         snd (mergeOperations L ops))"
    by (rule merge_nothing_new) (rule merge_ordered, rule merge_length)
next
  assume "length (operations L) +
      length (filter (\<lambda>op. op_id op \<notin> set (map op_id (operations L))) ops) \<le> maxOperations"
  then have "operations (snd (mergeOperations L ops)) =
     sortEvents (operations L @ filter (\<lambda>op. op_id op \<notin> set (map op_id (operations L))) ops)"
    by (simp add: operations_merge)
  then have "set (operations (snd (mergeOperations L ops))) =
     set (operations L) \<union> {op \<in> set ops. op_id op \<notin> set (map op_id (operations L))}"
    by (simp add: sortEvents_def set_js_sort)
  then show "set (map op_id ops) \<subseteq> set (map op_id (operations (snd (mergeOperations L ops))))"
    by auto
qed

theorem C6_merge_twice_witness:
  "length (operations example_log) +
      length (filter (\<lambda>op. op_id op \<notin> set (map op_id (operations example_log))) external_ops)
     \<le> maxOperations \<and>
   set (map op_id external_ops)
     \<subseteq> set (map op_id (operations (snd (mergeOperations example_log external_ops)))) \<and>
   merged (fst (mergeOperations example_log external_ops)) = 1 \<and>
   mergeOperations (snd (mergeOperations example_log external_ops)) external_ops =
     (\<lparr>merged = 0, total = 3\<rparr>, snd (mergeOperations example_log external_ops))"
proof -
  have new: "filter (\<lambda>op. op_id op \<notin> set (map op_id (operations example_log))) external_ops
      = [example_op ''c'' ACTIVE (Some [(''u2'', Count 1)]) 3]"
    by (simp add: example_log_def external_ops_def example_op_def)
  have len: "length (operations example_log) +
      length (filter (\<lambda>op. op_id op \<notin> set (map op_id (operations example_log))) external_ops)
     \<le> maxOperations"
    unfolding new by (simp add: example_log_def maxOperations_def)
  have tot: "length (operations (snd (mergeOperations example_log external_ops))) = 3"
    unfolding operations_merge new
    by (simp add: sortEvents_def length_js_sort example_log_def maxOperations_def)
  have one: "merged (fst (mergeOperations example_log external_ops)) = 1"
    unfolding merged_merge new by simp
  from len C6_merge_twice [of external_ops example_log] tot one show ?thesis by simp
qed

text \<open>More operations than the log keeps, all without a clock and with one timestamp:
  the comparator is 0 on every pair, and a stable sort leaves their order.\<close>

lemma many_ops_Suc:
  "many_ops (Suc n) =
     example_op ''i'' ACTIVE None 0 #
     map (\<lambda>k. example_op (replicate (Suc (Suc k)) CHR ''i'') ACTIVE None 0) [0..<n]"
proof -
  have "[0..<Suc n] = 0 # map Suc [0..<n]"
    by (simp add: upt_conv_Cons map_Suc_upt del: upt_Suc)
  then show ?thesis by (simp add: many_ops_def comp_def del: upt_Suc)
qed

lemma sort_cmp_many_ops:
  "a \<in> set (many_ops n) \<Longrightarrow> b \<in> set (many_ops n) \<Longrightarrow> sort_cmp a b = 0"
  by (auto simp add: many_ops_def sort_cmp_def example_op_def)

lemma successively_all_pairs:
  "(\<And>a b. a \<in> set xs \<Longrightarrow> b \<in> set xs \<Longrightarrow> R a b) \<Longrightarrow> successively R xs"
  by (rule successively_if_sorted_wrt) (simp add: sorted_wrt_iff_nth_less)

lemma sortEvents_many_ops:
  assumes "set xs \<subseteq> set (many_ops n)"
  shows "sortEvents xs = xs"
proof (rule sortEvents_fixed, rule successively_all_pairs)
  fix a b assume "a \<in> set xs" "b \<in> set xs"
  with assms have "sort_cmp a b = 0" by (intro sort_cmp_many_ops [of _ n]) auto
  then show "sort_cmp a b \<le> 0" by simp
qed

theorem C6_counterexample:
  "merged (fst (mergeOperations
       (snd (mergeOperations (OperationLog ''r1'' 1) (many_ops (Suc maxOperations))))
       (many_ops (Suc maxOperations)))) = 1 \<and>
   operations (snd (mergeOperations
       (snd (mergeOperations (OperationLog ''r1'' 1) (many_ops (Suc maxOperations))))
       (many_ops (Suc maxOperations))))
     \<noteq> operations (snd (mergeOperations (OperationLog ''r1'' 1) (many_ops (Suc maxOperations))))"
proof -
  define x0 where "x0 = example_op ''i'' ACTIVE None 0"
  define rest where
    "rest = map (\<lambda>k. example_op (replicate (Suc (Suc k)) CHR ''i'') ACTIVE None 0)
              [0..<maxOperations]"
  define L1 where "L1 = snd (mergeOperations (OperationLog ''r1'' 1) (many_ops (Suc maxOperations)))"
  have ops: "many_ops (Suc maxOperations) = x0 # rest"
    by (simp add: many_ops_Suc x0_def rest_def)
  have len: "length rest = maxOperations" by (simp add: rest_def)
  with maxOperations_pos have ne: "rest \<noteq> []" by auto
  have ids: "\<forall>op\<in>set rest. op_id op \<noteq> op_id x0"
    by (auto simp add: rest_def x0_def example_op_def)
  have ops1: "operations L1 = rest"
    unfolding L1_def operations_merge
    by (simp add: OperationLog_def sortEvents_many_ops [of _ "Suc maxOperations"] length_many_ops)
       (simp add: ops)
  have new: "filter (\<lambda>op. op_id op \<notin> set (map op_id rest)) (many_ops (Suc maxOperations)) = [x0]"
    unfolding ops using ids by (auto simp add: filter_empty_conv)
  have m: "merged (fst (mergeOperations L1 (many_ops (Suc maxOperations)))) = 1"
    by (simp only: merged_merge ops1 new) simp
  have "set (rest @ [x0]) \<subseteq> set (many_ops (Suc maxOperations))"
    unfolding ops by auto
  then have srt: "sortEvents (rest @ [x0]) = rest @ [x0]" by (rule sortEvents_many_ops)
  have ops2: "operations (snd (mergeOperations L1 (many_ops (Suc maxOperations)))) = drop 1 rest @ [x0]"
    using maxOperations_pos by (simp only: operations_merge ops1 new srt) (simp add: len ne)
  have "last (drop 1 rest @ [x0]) = x0" by simp
  moreover have "last rest \<noteq> x0"
  proof
    assume "last rest = x0"
    with ne have "x0 \<in> set rest" by (metis last_in_set)
    with ids show False by blast
  qed
  ultimately have "drop 1 rest @ [x0] \<noteq> rest" by metis
  with m ops2 ops1 show ?thesis unfolding L1_def by simp
qed

section \<open>Properties of RoomManager\<close>

lemma getRoom_existing:
  "map_of (rooms m) roomId = Some room \<Longrightarrow> getRoom m roomId env = (room, m)"
  by (simp add: getRoom_def)

lemma getRoom_new:
  "map_of (rooms m) roomId = None \<Longrightarrow>
   getRoom m roomId env =
     (\<lparr>r_id = roomId, r_users = [],
       r_operationLog = OperationLog roomId (log_created_now env),
       r_createdAt = room_createdAt env, r_lastActivity = room_lastActivity env\<rparr>,
      m\<lparr>rooms := AList.update roomId
          \<lparr>r_id = roomId, r_users = [],
           r_operationLog = OperationLog roomId (log_created_now env),
           r_createdAt = room_createdAt env, r_lastActivity = room_lastActivity env\<rparr> (rooms m)\<rparr>)"
  by (simp add: getRoom_def createRoom_def Let_def)

lemma members_getRoom:
  "length (r_users (fst (getRoom m roomId env))) = length (getRoomUsers m roomId)"
  by (cases "map_of (rooms m) roomId") (simp_all add: getRoom_existing getRoom_new getRoomUsers_def)

lemma getRoom_state:
  "0 < length (r_users (fst (getRoom m roomId env))) \<Longrightarrow> snd (getRoom m roomId env) = m"
  by (cases "map_of (rooms m) roomId") (simp_all add: getRoom_existing getRoom_new)

lemma getRoom_registered:
  "map_of (rooms (snd (getRoom m roomId env))) roomId = Some (fst (getRoom m roomId env))"
  by (cases "map_of (rooms m) roomId") (simp_all add: getRoom_existing getRoom_new update_conv')

lemma maxUsersPerRoom_pos: "0 < maxUsersPerRoom"
  by (simp add: maxUsersPerRoom_def)

lemma join_rejected:
  assumes "maxUsersPerRoom \<le> length (getRoomUsers m roomId)"
  shows "joinRoom m socketId roomId username env = (Rejected ''Room is full'', m)"
proof -
  from assms have full: "maxUsersPerRoom \<le> length (r_users (fst (getRoom m roomId env)))"
    by (simp add: members_getRoom)
  with maxUsersPerRoom_pos have "0 < length (r_users (fst (getRoom m roomId env)))"
    by arith
  then have same: "snd (getRoom m roomId env) = m" by (rule getRoom_state)
  obtain room m1 where g: "getRoom m roomId env = (room, m1)" by (cases "getRoom m roomId env")
  with full same show ?thesis by (simp add: joinRoom_def)
qed

lemma join_accepted:
  assumes "length (getRoomUsers m roomId) < maxUsersPerRoom"
  shows "\<exists>user info m' room' p.
     joinRoom m socketId roomId username env = (Joined user info, m') \<and>
     u_socketId user = socketId \<and> u_roomId user = roomId \<and>
     u_id user = generateUserId (uid_now env) (uid_random env) \<and>
     map_of (rooms m') roomId = Some room' \<and>
     map_of (r_users room') (u_id user) = Some p \<and>
     map_of (users m') socketId = Some p \<and>
     p < length (store m') \<and> store m' ! p = user"
proof -
  obtain room m1 where g: "getRoom m roomId env = (room, m1)" by (cases "getRoom m roomId env")
  with assms have "\<not> maxUsersPerRoom \<le> length (r_users room)"
    using members_getRoom [of m roomId env] by simp
  then show ?thesis
    by (simp add: joinRoom_def g Let_def update_conv')
qed


lemma length_delete_less:
  "map_of al k \<noteq> None \<Longrightarrow> length (AList.delete k al) < length al"
proof -
  assume "map_of al k \<noteq> None"
  then obtain v where "(k, v) \<in> set al" by (auto dest: map_of_SomeD)
  then show ?thesis unfolding AList.delete_eq by (rule length_filter_less) simp
qed

lemma leave_frees_place:
  assumes s: "map_of (users m) leaver = Some p"
    and r: "map_of (rooms m) (u_roomId (store m ! p)) = Some room"
    and u: "map_of (r_users room) (u_id (store m ! p)) \<noteq> None"
  shows "length (getRoomUsers (snd (leaveRoom m leaver t)) (u_roomId (store m ! p)))
           < length (r_users room)"
  using length_delete_less [OF u]
  by (simp add: leaveRoom_def s r Let_def getRoomUsers_def update_conv')

lemma list_all_map_of:
  "distinct (map fst al) \<Longrightarrow>
   list_all (\<lambda>(k, v). P k v) al = (\<forall>k v. map_of al k = Some v \<longrightarrow> P k v)"
  by (auto simp add: list_all_iff)

lemma case_option_ex:
  "(case x of None \<Rightarrow> False | Some r \<Rightarrow> Q r) = (\<exists>r. x = Some r \<and> Q r)"
  by (cases x) simp_all

lemma consistent_iff: "consistent m = (distinct_keys m \<and> sessions_agree m)"
proof (cases "distinct (map fst (rooms m)) \<and> distinct (map fst (users m))")
  case False
  then show ?thesis by (auto simp add: consistent_def distinct_keys_def)
next
  case True
  then have dr: "distinct (map fst (rooms m))" and du: "distinct (map fst (users m))" by simp_all
  show ?thesis
  proof (cases "\<forall>roomId room. map_of (rooms m) roomId = Some room \<longrightarrow> distinct (map fst (r_users room))")
    case False
    then show ?thesis
      by (auto simp add: consistent_def distinct_keys_def list_all_map_of [OF dr])
  next
    case inner: True
    have k: "room_sessions_known m =
       (\<forall>roomId room. map_of (rooms m) roomId = Some room \<longrightarrow>
         (\<forall>userId p. map_of (r_users room) userId = Some p \<longrightarrow>
            p < length (store m) \<and>
            u_id (store m ! p) = userId \<and>
            u_roomId (store m ! p) = roomId \<and>
            map_of (users m) (u_socketId (store m ! p)) = Some p))"
      unfolding room_sessions_known_def list_all_map_of [OF dr]
      using inner by (auto simp add: list_all_map_of)
    have r: "sessions_in_rooms m =
       (\<forall>socketId p. map_of (users m) socketId = Some p \<longrightarrow>
         p < length (store m) \<and>
         u_socketId (store m ! p) = socketId \<and>
         (\<exists>room. map_of (rooms m) (u_roomId (store m ! p)) = Some room \<and>
                 map_of (r_users room) (u_id (store m ! p)) = Some p))"
      unfolding sessions_in_rooms_def list_all_map_of [OF du] case_option_ex ..
    show ?thesis
      unfolding consistent_def distinct_keys_def sessions_agree_def k r list_all_map_of [OF dr]
      using dr du inner by blast
  qed
qed

lemma consistent_start: "consistent RoomManager"
  by (simp add: consistent_def RoomManager_def)


lemma consistent_rooms: "consistent m \<Longrightarrow> distinct (map fst (rooms m))"
  and consistent_users: "consistent m \<Longrightarrow> distinct (map fst (users m))"
  and consistent_room:
    "consistent m \<Longrightarrow> map_of (rooms m) roomId = Some room \<Longrightarrow> distinct (map fst (r_users room))"
  and consistent_member:
    "consistent m \<Longrightarrow> map_of (rooms m) roomId = Some room \<Longrightarrow>
     map_of (r_users room) userId = Some p \<Longrightarrow>
     p < length (store m) \<and> u_id (store m ! p) = userId \<and> u_roomId (store m ! p) = roomId \<and>
     map_of (users m) (u_socketId (store m ! p)) = Some p"
  and consistent_session:
    "consistent m \<Longrightarrow> map_of (users m) socketId = Some p \<Longrightarrow>
     p < length (store m) \<and> u_socketId (store m ! p) = socketId \<and>
     (\<exists>room. map_of (rooms m) (u_roomId (store m ! p)) = Some room \<and>
             map_of (r_users room) (u_id (store m ! p)) = Some p)"
  unfolding consistent_def by blast+

lemma consistent_new_room:
  assumes c: "consistent m" and n: "map_of (rooms m) roomId = None" and e: "r_users room = []"
  shows "consistent (m\<lparr>rooms := AList.update roomId room (rooms m)\<rparr>)"
  unfolding consistent_def
proof (intro conjI allI impI)
  let ?m = "m\<lparr>rooms := AList.update roomId room (rooms m)\<rparr>"
  show "distinct (map fst (rooms ?m))" using consistent_rooms [OF c] by (simp add: distinct_update)
  show "distinct (map fst (users ?m))" using consistent_users [OF c] by simp
  show "distinct (map fst (r_users r))" if "map_of (rooms ?m) i = Some r" for i r
    using that e consistent_room [OF c, of i r] by (auto simp add: update_conv' split: if_splits)
  show "p < length (store ?m)" "u_id (store ?m ! p) = u" "u_roomId (store ?m ! p) = i"
    "map_of (users ?m) (u_socketId (store ?m ! p)) = Some p"
    if "map_of (rooms ?m) i = Some r" "map_of (r_users r) u = Some p" for i r u p
    using that e consistent_member [OF c, of i r u p] by (auto simp add: update_conv' split: if_splits)
  show "p < length (store ?m)" "u_socketId (store ?m ! p) = s"
    "\<exists>r. map_of (rooms ?m) (u_roomId (store ?m ! p)) = Some r \<and>
         map_of (r_users r) (u_id (store ?m ! p)) = Some p"
    if "map_of (users ?m) s = Some p" for s p
    using that n consistent_session [OF c, of s p] by (auto simp add: update_conv')
qed

lemma consistent_getRoom: "consistent m \<Longrightarrow> consistent (snd (getRoom m roomId env))"
  by (cases "map_of (rooms m) roomId") (simp_all add: getRoom_existing getRoom_new consistent_new_room)

lemma consistent_add_session:
  assumes c: "consistent m"
    and r: "map_of (rooms m) roomId = Some room"
    and s: "map_of (users m) socketId = None"
    and f: "map_of (r_users room) userId = None"
    and u: "u_id user = userId" "u_socketId user = socketId" "u_roomId user = roomId"
  shows "consistent
     (m\<lparr>rooms := AList.update roomId
              (room\<lparr>r_users := AList.update userId (length (store m)) (r_users room),
                     r_lastActivity := t\<rparr>) (rooms m),
         users := AList.update socketId (length (store m)) (users m),
         store := store m @ [user]\<rparr>)"
  (is "consistent ?m")
  unfolding consistent_def
proof (intro conjI allI impI)
  show "distinct (map fst (rooms ?m))" using consistent_rooms [OF c] by (simp add: distinct_update)
  show "distinct (map fst (users ?m))" using consistent_users [OF c] by (simp add: distinct_update)
  show "distinct (map fst (r_users r'))" if "map_of (rooms ?m) i = Some r'" for i r'
    using that consistent_room [OF c, of i r'] consistent_room [OF c r]
    by (auto simp add: update_conv' distinct_update split: if_splits)
next
  fix i r' v p
  assume a: "map_of (rooms ?m) i = Some r'" "map_of (r_users r') v = Some p"
  have "p < length (store ?m) \<and> u_id (store ?m ! p) = v \<and> u_roomId (store ?m ! p) = i \<and>
    map_of (users ?m) (u_socketId (store ?m ! p)) = Some p"
  proof (cases "i = roomId \<and> v = userId")
    case True
    with a have "p = length (store m)" by (auto simp add: update_conv')
    with True u show ?thesis by (simp add: update_conv')
  next
    case False
    have "\<exists>r0. map_of (rooms m) i = Some r0 \<and> map_of (r_users r0) v = Some p"
    proof (cases "i = roomId")
      case True
      with False a r show ?thesis by (auto simp add: update_conv')
    next
      case False
      with a show ?thesis by (simp add: update_conv')
    qed
    then obtain r0 where "map_of (rooms m) i = Some r0" "map_of (r_users r0) v = Some p" by blast
    from consistent_member [OF c this]
    have old: "p < length (store m)" "u_id (store m ! p) = v" "u_roomId (store m ! p) = i"
      "map_of (users m) (u_socketId (store m ! p)) = Some p" by simp_all
    with s have "u_socketId (store m ! p) \<noteq> socketId" by auto
    with old show ?thesis by (simp add: nth_append update_conv')
  qed
  then show "p < length (store ?m)" "u_id (store ?m ! p) = v" "u_roomId (store ?m ! p) = i"
    "map_of (users ?m) (u_socketId (store ?m ! p)) = Some p" by simp_all
next
  fix k p
  assume a: "map_of (users ?m) k = Some p"
  have "p < length (store ?m) \<and> u_socketId (store ?m ! p) = k \<and>
    (\<exists>r'. map_of (rooms ?m) (u_roomId (store ?m ! p)) = Some r' \<and>
          map_of (r_users r') (u_id (store ?m ! p)) = Some p)"
  proof (cases "k = socketId")
    case True
    with a have "p = length (store m)" by (simp add: update_conv')
    with True u show ?thesis by (simp add: update_conv')
  next
    case False
    with a have "map_of (users m) k = Some p" by (simp add: update_conv')
    from consistent_session [OF c this] obtain r0 where
      old: "p < length (store m)" "u_socketId (store m ! p) = k"
        "map_of (rooms m) (u_roomId (store m ! p)) = Some r0"
        "map_of (r_users r0) (u_id (store m ! p)) = Some p" by blast
    show ?thesis
    proof (cases "u_roomId (store m ! p) = roomId")
      case True
      with old r have r0: "r0 = room" by simp
      with old f have "u_id (store m ! p) \<noteq> userId" by auto
      with old True r0 show ?thesis by (simp add: nth_append update_conv')
    next
      case False
      with old show ?thesis by (simp add: nth_append update_conv')
    qed
  qed
  then show "p < length (store ?m)" "u_socketId (store ?m ! p) = k"
    "\<exists>r'. map_of (rooms ?m) (u_roomId (store ?m ! p)) = Some r' \<and>
          map_of (r_users r') (u_id (store ?m ! p)) = Some p" by simp_all
qed

lemma consistent_join:
  assumes c: "consistent m"
    and s: "map_of (users m) socketId = None"
    and f: "map_of (r_users (fst (getRoom m roomId env)))
              (generateUserId (uid_now env) (uid_random env)) = None"
  shows "consistent (snd (joinRoom m socketId roomId username env))"
proof -
  obtain room m1 where g: "getRoom m roomId env = (room, m1)" by (cases "getRoom m roomId env")
  from consistent_getRoom [OF c, of roomId env] g have c1: "consistent m1" by simp
  from getRoom_registered [of m roomId env] g have r1: "map_of (rooms m1) roomId = Some room" by simp
  have s1: "map_of (users m1) socketId = None"
    using s g by (cases "map_of (rooms m) roomId") (auto simp add: getRoom_existing getRoom_new)
  from f g have f1: "map_of (r_users room) (generateUserId (uid_now env) (uid_random env)) = None"
    by simp
  show ?thesis
  proof (cases "maxUsersPerRoom \<le> length (r_users room)")
    case True
    with c1 show ?thesis by (simp add: joinRoom_def g)
  next
    case False
    then show ?thesis
      unfolding joinRoom_def g
      by (simp add: Let_def) (rule consistent_add_session [OF c1 r1 s1 f1], simp_all)
  qed
qed

lemma leaveRoom_nothing:
  "map_of (users m) socketId = None \<Longrightarrow> leaveRoom m socketId t = (None, m)"
  by (simp add: leaveRoom_def)

lemma leaveRoom_state:
  "map_of (users m) socketId = Some p \<Longrightarrow>
   map_of (rooms m) (u_roomId (store m ! p)) = Some room \<Longrightarrow>
   snd (leaveRoom m socketId t) =
     m\<lparr>rooms := AList.update (u_roomId (store m ! p))
                  (room\<lparr>r_users := AList.delete (u_id (store m ! p)) (r_users room)\<rparr>) (rooms m),
       users := AList.delete socketId (users m)\<rparr>"
  by (simp add: leaveRoom_def Let_def)

lemma consistent_leave:
  assumes c: "consistent m"
  shows "consistent (snd (leaveRoom m socketId t))"
proof (cases "map_of (users m) socketId")
  case None
  with c show ?thesis by (simp add: leaveRoom_nothing)
next
  case (Some q)
  from consistent_session [OF c Some] obtain room where
    q: "q < length (store m)" "u_socketId (store m ! q) = socketId"
       "map_of (rooms m) (u_roomId (store m ! q)) = Some room"
       "map_of (r_users room) (u_id (store m ! q)) = Some q" by blast
  let ?rid = "u_roomId (store m ! q)" and ?uid = "u_id (store m ! q)"
  let ?m = "m\<lparr>rooms := AList.update ?rid (room\<lparr>r_users := AList.delete ?uid (r_users room)\<rparr>) (rooms m),
       users := AList.delete socketId (users m)\<rparr>"
  have "consistent ?m"
    unfolding consistent_def
  proof (intro conjI allI impI)
    show "distinct (map fst (rooms ?m))" using consistent_rooms [OF c] by (simp add: distinct_update)
    show "distinct (map fst (users ?m))" using consistent_users [OF c] by (simp add: distinct_delete)
    show "distinct (map fst (r_users r'))" if "map_of (rooms ?m) i = Some r'" for i r'
      using that consistent_room [OF c, of i r'] consistent_room [OF c q(3)]
      by (auto simp add: update_conv' distinct_delete split: if_splits)
  next
    fix i r' v p
    assume a: "map_of (rooms ?m) i = Some r'" "map_of (r_users r') v = Some p"
    have "\<exists>r0. map_of (rooms m) i = Some r0 \<and> map_of (r_users r0) v = Some p \<and>
            (i = ?rid \<longrightarrow> v \<noteq> ?uid)"
    proof (cases "i = ?rid")
      case True
      with a q show ?thesis by (auto simp add: update_conv' delete_conv' split: if_splits)
    next
      case False
      with a show ?thesis by (simp add: update_conv')
    qed
    then obtain r0 where r0: "map_of (rooms m) i = Some r0" "map_of (r_users r0) v = Some p"
      "i = ?rid \<longrightarrow> v \<noteq> ?uid" by blast
    from consistent_member [OF c r0(1,2)]
    have old: "p < length (store m)" "u_id (store m ! p) = v" "u_roomId (store m ! p) = i"
      "map_of (users m) (u_socketId (store m ! p)) = Some p" by simp_all
    have "u_socketId (store m ! p) \<noteq> socketId"
    proof
      assume "u_socketId (store m ! p) = socketId"
      with old Some have "p = q" by simp
      with old r0 show False by simp
    qed
    with old show "p < length (store ?m)" "u_id (store ?m ! p) = v" "u_roomId (store ?m ! p) = i"
      "map_of (users ?m) (u_socketId (store ?m ! p)) = Some p"
      by (simp_all add: delete_conv')
  next
    fix k p
    assume a: "map_of (users ?m) k = Some p"
    then have k: "k \<noteq> socketId" "map_of (users m) k = Some p"
      by (auto simp add: delete_conv' split: if_splits)
    from consistent_session [OF c k(2)] obtain r0 where
      old: "p < length (store m)" "u_socketId (store m ! p) = k"
        "map_of (rooms m) (u_roomId (store m ! p)) = Some r0"
        "map_of (r_users r0) (u_id (store m ! p)) = Some p" by blast
    from old k q have pq: "p \<noteq> q" by auto
    have "\<exists>r'. map_of (rooms ?m) (u_roomId (store m ! p)) = Some r' \<and>
          map_of (r_users r') (u_id (store m ! p)) = Some p"
    proof (cases "u_roomId (store m ! p) = ?rid")
      case True
      with old q have r0: "r0 = room" by simp
      with old q pq have "u_id (store m ! p) \<noteq> ?uid" by auto
      with old True r0 show ?thesis by (simp add: update_conv' delete_conv')
    next
      case False
      with old show ?thesis by (simp add: update_conv')
    qed
    with old show "p < length (store ?m)" "u_socketId (store ?m ! p) = k"
      "\<exists>r'. map_of (rooms ?m) (u_roomId (store ?m ! p)) = Some r' \<and>
          map_of (r_users r') (u_id (store ?m ! p)) = Some p" by simp_all
  qed
  then show ?thesis by (simp add: leaveRoom_state [OF Some q(3)])
qed

lemma left_users: "consistent m \<Longrightarrow> map_of (users (snd (leaveRoom m socketId t))) socketId = None"
proof (cases "map_of (users m) socketId")
  case None
  then show ?thesis by (simp add: leaveRoom_nothing)
next
  case (Some q)
  assume c: "consistent m"
  from consistent_session [OF c Some] obtain room where
    "map_of (rooms m) (u_roomId (store m ! q)) = Some room" by blast
  from leaveRoom_state [OF Some this] show ?thesis by (simp add: delete_conv')
qed

lemma consistent_unreferenced:
  assumes c: "consistent m" and n: "map_of (users m) socketId = None"
  shows "unreferenced m socketId"
proof -
  have "u_socketId (store m ! p) \<noteq> socketId"
    if "map_of (rooms m) i = Some r" "map_of (r_users r) v = Some p" for i r v p
    using consistent_member [OF c that] n by auto
  then have "\<forall>i r. map_of (rooms m) i = Some r \<longrightarrow>
      (\<forall>v p. map_of (r_users r) v = Some p \<longrightarrow> u_socketId (store m ! p) \<noteq> socketId)"
    by blast
  moreover have "list_all (\<lambda>(v, p). u_socketId (store m ! p) \<noteq> socketId) (r_users r) =
      (\<forall>v p. map_of (r_users r) v = Some p \<longrightarrow> u_socketId (store m ! p) \<noteq> socketId)"
    if "map_of (rooms m) i = Some r" for i r
    using consistent_room [OF c that] by (rule list_all_map_of)
  ultimately show ?thesis
    unfolding unreferenced_def list_all_map_of [OF consistent_rooms [OF c]]
    using n by simp
qed

lemma touched_fields:
  "u_id ((st[p := (st ! p)\<lparr>u_lastActivity := t\<rparr>]) ! q) = u_id (st ! q)"
  "u_socketId ((st[p := (st ! p)\<lparr>u_lastActivity := t\<rparr>]) ! q) = u_socketId (st ! q)"
  "u_roomId ((st[p := (st ! p)\<lparr>u_lastActivity := t\<rparr>]) ! q) = u_roomId (st ! q)"
proof -
  have "st[p := (st ! p)\<lparr>u_lastActivity := t\<rparr>] ! q =
      (if p = q \<and> p < length st then (st ! p)\<lparr>u_lastActivity := t\<rparr> else st ! q)"
    by (cases "p < length st") (simp_all add: nth_list_update list_update_beyond)
  then show "u_id ((st[p := (st ! p)\<lparr>u_lastActivity := t\<rparr>]) ! q) = u_id (st ! q)"
    "u_socketId ((st[p := (st ! p)\<lparr>u_lastActivity := t\<rparr>]) ! q) = u_socketId (st ! q)"
    "u_roomId ((st[p := (st ! p)\<lparr>u_lastActivity := t\<rparr>]) ! q) = u_roomId (st ! q)"
    by simp_all
qed

lemma consistent_touch_user:
  "consistent m \<Longrightarrow> consistent (m\<lparr>store := (store m)[p := (store m ! p)\<lparr>u_lastActivity := t\<rparr>]\<rparr>)"
  unfolding consistent_def by (simp add: touched_fields del: map_of_eq_Some_iff)

lemma consistent_touch_room:
  assumes c: "consistent m" and r: "map_of (rooms m) roomId = Some room"
  shows "consistent (m\<lparr>rooms := AList.update roomId (room\<lparr>r_lastActivity := t\<rparr>) (rooms m)\<rparr>)"
  (is "consistent ?m")
proof -
  have earlier: "\<exists>r0. map_of (rooms m) i = Some r0 \<and> r_users r0 = r_users r'"
    if "map_of (rooms ?m) i = Some r'" for i r'
    using that r by (auto simp add: update_conv' split: if_splits)
  have later: "\<exists>r'. map_of (rooms ?m) i = Some r' \<and> r_users r' = r_users r0"
    if "map_of (rooms m) i = Some r0" for i r0
    using that r by (auto simp add: update_conv')
  show ?thesis
    unfolding consistent_def
  proof (intro conjI allI impI)
    show "distinct (map fst (rooms ?m))" using consistent_rooms [OF c] by (simp add: distinct_update)
    show "distinct (map fst (users ?m))" using consistent_users [OF c] by simp
    show "distinct (map fst (r_users r'))" if "map_of (rooms ?m) i = Some r'" for i r'
    proof -
      from earlier [OF that] obtain r0 where "map_of (rooms m) i = Some r0" "r_users r0 = r_users r'"
        by blast
      with consistent_room [OF c, of i r0] show ?thesis by simp
    qed
  next
    fix i r' v p
    assume a: "map_of (rooms ?m) i = Some r'" "map_of (r_users r') v = Some p"
    from earlier [OF a(1)] a(2) obtain r0 where "map_of (rooms m) i = Some r0"
      "map_of (r_users r0) v = Some p" by auto
    from consistent_member [OF c this]
    show "p < length (store ?m)" "u_id (store ?m ! p) = v" "u_roomId (store ?m ! p) = i"
      "map_of (users ?m) (u_socketId (store ?m ! p)) = Some p" by simp_all
  next
    fix k p
    assume "map_of (users ?m) k = Some p"
    then have "map_of (users m) k = Some p" by simp
    from consistent_session [OF c this] obtain r0 where
      old: "p < length (store m)" "u_socketId (store m ! p) = k"
        "map_of (rooms m) (u_roomId (store m ! p)) = Some r0"
        "map_of (r_users r0) (u_id (store m ! p)) = Some p" by blast
    from later [OF old(3)] old(4)
    have "\<exists>r'. map_of (rooms ?m) (u_roomId (store m ! p)) = Some r' \<and>
          map_of (r_users r') (u_id (store m ! p)) = Some p" by auto
    with old show "p < length (store ?m)" "u_socketId (store ?m ! p) = k"
      "\<exists>r'. map_of (rooms ?m) (u_roomId (store ?m ! p)) = Some r' \<and>
          map_of (r_users r') (u_id (store ?m ! p)) = Some p" by simp_all
  qed
qed

lemma consistent_activity:
  assumes c: "consistent m"
  shows "consistent (updateActivity m socketId user_time room_time)"
proof (cases "map_of (users m) socketId")
  case None
  with c show ?thesis by (simp add: updateActivity_def)
next
  case (Some p)
  let ?m1 = "m\<lparr>store := (store m)[p := (store m ! p)\<lparr>u_lastActivity := user_time\<rparr>]\<rparr>"
  have c1: "consistent ?m1" using c by (rule consistent_touch_user)
  show ?thesis
  proof (cases "map_of (rooms m) (u_roomId (store m ! p))")
    case None
    with Some c1 show ?thesis by (simp add: updateActivity_def Let_def)
  next
    case (Some room)
    then have "map_of (rooms ?m1) (u_roomId (store m ! p)) = Some room" by simp
    from consistent_touch_room [OF c1 this, of room_time] Some \<open>map_of (users m) socketId = Some p\<close>
    show ?thesis by (simp add: updateActivity_def Let_def)
  qed
qed

lemma consistent_delete_empty:
  assumes c: "consistent m"
    and e: "\<And>room. map_of (rooms m) roomId = Some room \<Longrightarrow> r_users room = []"
  shows "consistent (deleteRoom m roomId)"
proof (cases "map_of (rooms m) roomId")
  case None
  with c show ?thesis by (simp add: deleteRoom_def)
next
  case (Some room)
  with e have empty: "r_users room = []" by simp
  let ?m = "m\<lparr>rooms := AList.delete roomId (rooms m)\<rparr>"
  have "consistent ?m"
    unfolding consistent_def
  proof (intro conjI allI impI)
    show "distinct (map fst (rooms ?m))" using consistent_rooms [OF c] by (simp add: distinct_delete)
    show "distinct (map fst (users ?m))" using consistent_users [OF c] by simp
    show "distinct (map fst (r_users r'))" if "map_of (rooms ?m) i = Some r'" for i r'
      using that consistent_room [OF c, of i r'] by (auto simp add: delete_conv' split: if_splits)
  next
    fix i r' v p
    assume "map_of (rooms ?m) i = Some r'" "map_of (r_users r') v = Some p"
    then have "map_of (rooms m) i = Some r'" "map_of (r_users r') v = Some p"
      by (auto simp add: delete_conv' split: if_splits)
    from consistent_member [OF c this]
    show "p < length (store ?m)" "u_id (store ?m ! p) = v" "u_roomId (store ?m ! p) = i"
      "map_of (users ?m) (u_socketId (store ?m ! p)) = Some p" by simp_all
  next
    fix k p
    assume "map_of (users ?m) k = Some p"
    then have "map_of (users m) k = Some p" by simp
    from consistent_session [OF c this] obtain r0 where
      old: "p < length (store m)" "u_socketId (store m ! p) = k"
        "map_of (rooms m) (u_roomId (store m ! p)) = Some r0"
        "map_of (r_users r0) (u_id (store m ! p)) = Some p" by blast
    from old Some empty have "u_roomId (store m ! p) \<noteq> roomId" by auto
    with old show "p < length (store ?m)" "u_socketId (store ?m ! p) = k"
      "\<exists>r'. map_of (rooms ?m) (u_roomId (store ?m ! p)) = Some r' \<and>
          map_of (r_users r') (u_id (store ?m ! p)) = Some p"
      by (simp_all add: delete_conv')
  qed
  with Some show ?thesis by (simp add: deleteRoom_def)
qed

lemma consistent_cleanup:
  assumes c: "consistent m"
  shows "consistent (roomCleanup m roomId now)"
proof (cases "map_of (rooms m) roomId")
  case None
  with c show ?thesis by (simp add: roomCleanup_def)
next
  case (Some room)
  show ?thesis
  proof (cases "length (r_users room) = 0 \<and> 60000 < now - r_lastActivity room")
    case True
    with Some have "consistent (deleteRoom m roomId)"
      by (intro consistent_delete_empty [OF c]) simp
    with True Some show ?thesis by (simp add: roomCleanup_def Let_def)
  next
    case False
    with Some c show ?thesis by (auto simp add: roomCleanup_def Let_def)
  qed
qed

lemma rooms_deleteRoom:
  "map_of (rooms (deleteRoom m d)) i = Some r \<Longrightarrow> map_of (rooms m) i = Some r"
  by (cases "map_of (rooms m) d") (auto simp add: deleteRoom_def delete_conv' split: if_splits)

lemma consistent_delete_all:
  "consistent m \<Longrightarrow>
   (\<And>d room. d \<in> set ds \<Longrightarrow> map_of (rooms m) d = Some room \<Longrightarrow> r_users room = []) \<Longrightarrow>
   consistent (fold (\<lambda>roomId m'. deleteRoom m' roomId) ds m)"
proof (induction ds arbitrary: m)
  case Nil
  then show ?case by simp
next
  case (Cons d ds)
  have "consistent (deleteRoom m d)"
    using Cons.prems(1) by (rule consistent_delete_empty) (rule Cons.prems(2), simp_all)
  moreover have "r_users room = []"
    if "d' \<in> set ds" "map_of (rooms (deleteRoom m d)) d' = Some room" for d' room
    using that Cons.prems(2) [of d' room] rooms_deleteRoom [of m d d' room] by simp
  ultimately have "consistent (fold (\<lambda>roomId m'. deleteRoom m' roomId) ds (deleteRoom m d))"
    by (rule Cons.IH)
  then show ?case by simp
qed

lemma consistent_tick:
  assumes c: "consistent m"
    and g: "list_all (\<lambda>(roomId, room). now - r_lastActivity room > roomTimeout \<longrightarrow> r_users room = [])
              (rooms m)"
  shows "consistent (cleanupTick m now)"
  unfolding cleanupTick_def Let_def
proof (rule consistent_delete_all [OF c])
  fix d room
  assume d: "d \<in> set (map fst (filter (\<lambda>(roomId, room).
                  if length (r_users room) = 0 \<and> 300000 < now - r_lastActivity room then True
                  else if roomTimeout < now - r_lastActivity room then True else False) (rooms m)))"
    and r: "map_of (rooms m) d = Some room"
  from d obtain room' where in': "(d, room') \<in> set (rooms m)"
    and sel: "(length (r_users room') = 0 \<and> 300000 < now - r_lastActivity room') \<or>
       roomTimeout < now - r_lastActivity room'"
    by (auto split: if_splits)
  from in' consistent_rooms [OF c] r have "room' = room" by simp
  with sel g in' show "r_users room = []" by (auto simp add: list_all_iff)
qed

lemma reachable_consistent: "reachable_guarded m \<Longrightarrow> consistent m"
proof (induction rule: reachable_guarded.induct)
  case start
  show ?case by (rule consistent_start)
next
  case (join m socketId roomId env username)
  then show ?case by (intro consistent_join)
next
  case (lookup m roomId env)
  then show ?case by (intro consistent_getRoom)
next
  case (leave m socketId info_time)
  then show ?case by (intro consistent_leave)
next
  case (activity m socketId user_time room_time)
  then show ?case by (intro consistent_activity)
next
  case (cleanup m roomId now)
  then show ?case by (intro consistent_cleanup)
next
  case (tick m now)
  then show ?case by (intro consistent_tick)
qed

lemma guarded_reachable: "reachable_guarded m \<Longrightarrow> reachable m"
  by (induction rule: reachable_guarded.induct) (auto intro: reachable.intros)

text \<open>
  Claim C8, amended. In every state reached from the new manager by \<open>joinRoom\<close>,
  \<open>leaveRoom\<close>, \<open>updateActivity\<close>, \<open>getRoom\<close>, the scheduled room cleanup and the
  periodic cleanup, where a connection joins only while it has no session, the generated
  user id is new in the room, and the periodic cleanup meets no inhabited room idle for
  more than an hour (\<open>reachable_guarded\<close>), the membership maps and the sessions map
  agree; after \<open>leaveRoom\<close> they still agree and neither references the connection that
  left. Each such state is reachable.
\<close>

theorem C8_sessions_agree:
  "reachable_guarded m \<Longrightarrow>
     reachable m \<and> sessions_agree m \<and> distinct_keys m \<and>
     sessions_agree (snd (leaveRoom m socketId t)) \<and>
     unreferenced (snd (leaveRoom m socketId t)) socketId"
proof -
  assume "reachable_guarded m"
  then have c: "consistent m" by (rule reachable_consistent)
  then have c': "consistent (snd (leaveRoom m socketId t))" by (rule consistent_leave)
  from c' left_users [OF c] have "unreferenced (snd (leaveRoom m socketId t)) socketId"
    by (rule consistent_unreferenced)
  with c c' guarded_reachable [OF \<open>reachable_guarded m\<close>] show ?thesis
    by (simp add: consistent_iff)
qed

lemma example_uid: "generateUserId (uid_now (example_join_env r)) (uid_random (example_join_env r)) = ''user_1_'' @ r"
  by (simp add: generateUserId_def example_join_env_def dec_int_def dec_nat.simps)

lemma one_member_state:
  "snd (joinRoom (RoomManager :: unit manager) ''s1'' ''r1'' (Some ''Ann'') (example_join_env ''abc'')) =
     \<lparr>rooms = [(''r1'', \<lparr>r_id = ''r1'', r_users = [(''user_1_abc'', 0)],
                          r_operationLog = OperationLog ''r1'' 1,
                          r_createdAt = 1, r_lastActivity = 1\<rparr>)],
      users = [(''s1'', 0)],
      store = [\<lparr>u_id = ''user_1_abc'', u_socketId = ''s1'', u_name = ''Ann'',
                u_color = ''#FF6B6B'', u_roomId = ''r1'', u_joinedAt = 1, u_lastActivity = 1\<rparr>]\<rparr>"
  by (simp add: joinRoom_def getRoom_def createRoom_def RoomManager_def Let_def example_uid
        maxUsersPerRoom_def assignColor_def USER_COLORS_def)
     (simp add: example_join_env_def)

theorem C8_sessions_agree_witness:
  "reachable_guarded (snd (joinRoom (RoomManager :: unit manager) ''s1'' ''r1'' (Some ''Ann'')
                (example_join_env ''abc''))) \<and>
   sessions_agree (snd (joinRoom (RoomManager :: unit manager) ''s1'' ''r1'' (Some ''Ann'')
                (example_join_env ''abc''))) \<and>
   unreferenced (snd (leaveRoom (snd (joinRoom (RoomManager :: unit manager) ''s1'' ''r1'' (Some ''Ann'')
                (example_join_env ''abc''))) ''s1'' 2)) ''s1''"
proof -
  have "reachable_guarded (snd (joinRoom (RoomManager :: unit manager) ''s1'' ''r1'' (Some ''Ann'')
                (example_join_env ''abc'')))"
    by (rule reachable_guarded.join [OF reachable_guarded.start])
       (simp_all add: RoomManager_def getRoom_def createRoom_def Let_def)
  with C8_sessions_agree [OF this, of "''s1''" 2] show ?thesis by simp
qed

theorem C8_counterexample:
  "reachable
       (snd (joinRoom
          (snd (joinRoom (RoomManager :: unit manager) ''s1'' ''r1'' (Some ''Ann'')
             (example_join_env ''abc'')))
          ''s1'' ''r1'' (Some ''Ann'') (example_join_env ''xyz''))) \<and>
   \<not> sessions_agree
       (snd (joinRoom
          (snd (joinRoom (RoomManager :: unit manager) ''s1'' ''r1'' (Some ''Ann'')
             (example_join_env ''abc'')))
          ''s1'' ''r1'' (Some ''Ann'') (example_join_env ''xyz'')))"
proof
  show "reachable
       (snd (joinRoom
          (snd (joinRoom (RoomManager :: unit manager) ''s1'' ''r1'' (Some ''Ann'')
             (example_join_env ''abc'')))
          ''s1'' ''r1'' (Some ''Ann'') (example_join_env ''xyz'')))"
    by (intro reachable.join reachable.start)
  show "\<not> sessions_agree
       (snd (joinRoom
          (snd (joinRoom (RoomManager :: unit manager) ''s1'' ''r1'' (Some ''Ann'')
             (example_join_env ''abc'')))
          ''s1'' ''r1'' (Some ''Ann'') (example_join_env ''xyz'')))"
    unfolding one_member_state
    by (simp add: joinRoom_def getRoom_def Let_def example_uid maxUsersPerRoom_def
          sessions_agree_def room_sessions_known_def)
qed

text \<open>The periodic cleanup deletes a room idle for more than an hour with its members
  in it; their sessions stay in the manager's \<open>users\<close>, and \<open>leaveRoom\<close> then returns
  \<open>null\<close> before it removes the session.\<close>

lemma stale_room_sessions_remain:
  "reachable
       (cleanupTick
          (snd (joinRoom (RoomManager :: unit manager) ''s1'' ''r1'' (Some ''Ann'')
             (example_join_env ''abc''))) 3600002) \<and>
   \<not> sessions_agree
       (cleanupTick
          (snd (joinRoom (RoomManager :: unit manager) ''s1'' ''r1'' (Some ''Ann'')
             (example_join_env ''abc''))) 3600002) \<and>
   map_of (users (snd (leaveRoom
          (cleanupTick
             (snd (joinRoom (RoomManager :: unit manager) ''s1'' ''r1'' (Some ''Ann'')
                (example_join_env ''abc''))) 3600002) ''s1'' 3600003))) ''s1'' = Some 0"
proof (intro conjI)
  show "reachable
       (cleanupTick
          (snd (joinRoom (RoomManager :: unit manager) ''s1'' ''r1'' (Some ''Ann'')
             (example_join_env ''abc''))) 3600002)"
    by (intro reachable.tick reachable.join reachable.start)
qed (simp_all add: one_member_state cleanupTick_def roomTimeout_def deleteRoom_def
       sessions_agree_def sessions_in_rooms_def leaveRoom_def)

lemma full_manager_room:
  "map_of (rooms full_manager) ''r1'' =
     Some \<lparr>r_id = ''r1'',
           r_users = map (\<lambda>k. (u_id (example_user k), k)) [0..<maxUsersPerRoom],
           r_operationLog = OperationLog ''r1'' 0, r_createdAt = 0, r_lastActivity = 0\<rparr>"
  by (simp add: full_manager_def)

lemma full_manager_members: "length (getRoomUsers full_manager ''r1'') = maxUsersPerRoom"
  by (simp add: getRoomUsers_def full_manager_room)

lemma upt_first: "0 < n \<Longrightarrow> [0..<n] = 0 # [Suc 0..<n]"
  by (simp add: upt_conv_Cons)

lemma full_manager_first:
  "map_of (users full_manager) ''sock_'' = Some 0"
  "store full_manager ! 0 = example_user 0"
  "u_roomId (example_user 0) = ''r1''"
  "map_of (map (\<lambda>k. (u_id (example_user k), k)) [0..<maxUsersPerRoom]) (u_id (example_user 0)) = Some 0"
  by (simp_all add: full_manager_def upt_first [OF maxUsersPerRoom_pos] example_user_def)

lemma set_update_subset: "set (AList.update k v al) \<subseteq> insert (k, v) (set al)"
  by (induction al) auto

lemma length_update_le: "length (AList.update k v al) \<le> Suc (length al)"
  by (induction al) auto

lemma length_delete_le: "length (AList.delete k al) \<le> length al"
  by (simp add: AList.delete_eq)

lemma set_delete_subset: "set (AList.delete k al) \<subseteq> set al"
  by (auto simp add: AList.delete_eq)

lemma within_capacityI:
  "(\<And>roomId room. (roomId, room) \<in> set (rooms m) \<Longrightarrow> length (r_users room) \<le> maxUsersPerRoom) \<Longrightarrow>
   within_capacity m"
  by (auto simp add: within_capacity_def list_all_iff)

lemma within_capacityD:
  "within_capacity m \<Longrightarrow> (roomId, room) \<in> set (rooms m) \<Longrightarrow>
   length (r_users room) \<le> maxUsersPerRoom"
  by (auto simp add: within_capacity_def list_all_iff)

lemma within_capacity_lookup:
  "within_capacity m \<Longrightarrow> map_of (rooms m) roomId = Some room \<Longrightarrow>
   length (r_users room) \<le> maxUsersPerRoom"
  by (auto dest: map_of_SomeD within_capacityD)

lemma capacity_set_room:
  assumes c: "within_capacity m" and r: "length (r_users room) \<le> maxUsersPerRoom"
    and k: "rooms m' = AList.update roomId room (rooms m)"
  shows "within_capacity m'"
proof (rule within_capacityI)
  fix i r' assume "(i, r') \<in> set (rooms m')"
  with set_update_subset [of roomId room "rooms m"] k
  have "(i, r') = (roomId, room) \<or> (i, r') \<in> set (rooms m)" by auto
  with r within_capacityD [OF c] show "length (r_users r') \<le> maxUsersPerRoom" by auto
qed

lemma capacity_getRoom: "within_capacity m \<Longrightarrow> within_capacity (snd (getRoom m roomId env))"
proof (cases "map_of (rooms m) roomId")
  case None
  assume c: "within_capacity m"
  show ?thesis unfolding getRoom_new [OF None] snd_conv
    by (rule capacity_set_room [OF c]) simp_all
next
  case (Some room)
  assume "within_capacity m"
  with Some show ?thesis by (simp add: getRoom_existing)
qed

lemma capacity_join:
  assumes c: "within_capacity m"
  shows "within_capacity (snd (joinRoom m socketId roomId username env))"
proof -
  obtain room m1 where g: "getRoom m roomId env = (room, m1)" by (cases "getRoom m roomId env")
  from capacity_getRoom [OF c, of roomId env] g have c1: "within_capacity m1" by simp
  show ?thesis
  proof (cases "maxUsersPerRoom \<le> length (r_users room)")
    case True
    with c1 show ?thesis by (simp add: joinRoom_def g)
  next
    case False
    then have "length (AList.update (generateUserId (uid_now env) (uid_random env))
        (length (store m1)) (r_users room)) \<le> maxUsersPerRoom"
      using length_update_le [of "generateUserId (uid_now env) (uid_random env)"
          "length (store m1)" "r_users room"] by simp
    with False show ?thesis
      unfolding joinRoom_def g
      by (simp add: Let_def) (rule capacity_set_room [OF c1], simp_all)
  qed
qed

lemma capacity_leave:
  assumes c: "within_capacity m"
  shows "within_capacity (snd (leaveRoom m socketId t))"
proof (cases "map_of (users m) socketId")
  case None
  with c show ?thesis by (simp add: leaveRoom_nothing)
next
  case (Some p)
  show ?thesis
  proof (cases "map_of (rooms m) (u_roomId (store m ! p))")
    case None
    with Some c show ?thesis by (simp add: leaveRoom_def)
  next
    case (Some room)
    from within_capacity_lookup [OF c Some]
      length_delete_le [of "u_id (store m ! p)" "r_users room"]
    have "length (AList.delete (u_id (store m ! p)) (r_users room)) \<le> maxUsersPerRoom" by simp
    then show ?thesis
      unfolding leaveRoom_state [OF \<open>map_of (users m) socketId = Some p\<close> Some]
      by (intro capacity_set_room [OF c]) simp_all
  qed
qed

lemma capacity_activity:
  assumes c: "within_capacity m"
  shows "within_capacity (updateActivity m socketId user_time room_time)"
proof (cases "map_of (users m) socketId")
  case None
  with c show ?thesis by (simp add: updateActivity_def)
next
  case (Some p)
  let ?m1 = "m\<lparr>store := (store m)[p := (store m ! p)\<lparr>u_lastActivity := user_time\<rparr>]\<rparr>"
  from c have c1: "within_capacity ?m1" by (simp add: within_capacity_def)
  show ?thesis
  proof (cases "map_of (rooms m) (u_roomId (store m ! p))")
    case None
    with Some c1 show ?thesis by (simp add: updateActivity_def Let_def)
  next
    case (Some room)
    from within_capacity_lookup [OF c Some]
    have "within_capacity (?m1\<lparr>rooms := AList.update (u_roomId (store m ! p))
        (room\<lparr>r_lastActivity := room_time\<rparr>) (rooms ?m1)\<rparr>)"
      by (intro capacity_set_room [OF c1]) simp_all
    with Some \<open>map_of (users m) socketId = Some p\<close> show ?thesis
      by (simp add: updateActivity_def Let_def)
  qed
qed

lemma capacity_delete: "within_capacity m \<Longrightarrow> within_capacity (deleteRoom m roomId)"
  using set_delete_subset [of roomId "rooms m"]
  by (cases "map_of (rooms m) roomId")
     (auto simp add: deleteRoom_def within_capacity_def list_all_iff)

lemma capacity_cleanup: "within_capacity m \<Longrightarrow> within_capacity (roomCleanup m roomId now)"
  by (cases "map_of (rooms m) roomId") (simp_all add: roomCleanup_def Let_def capacity_delete)

lemma capacity_delete_all:
  "within_capacity m \<Longrightarrow> within_capacity (fold (\<lambda>roomId m'. deleteRoom m' roomId) ds m)"
  by (induction ds arbitrary: m) (simp_all add: capacity_delete)

lemma capacity_tick: "within_capacity m \<Longrightarrow> within_capacity (cleanupTick m now)"
  by (simp add: cleanupTick_def Let_def capacity_delete_all)

lemma reachable_capacity: "reachable m \<Longrightarrow> within_capacity m"
proof (induction rule: reachable.induct)
  case start
  show ?case by (simp add: within_capacity_def RoomManager_def)
next
  case (join m socketId roomId username env)
  then show ?case by (intro capacity_join)
next
  case (lookup m roomId env)
  then show ?case by (intro capacity_getRoom)
next
  case (leave m socketId info_time)
  then show ?case by (intro capacity_leave)
next
  case (activity m socketId user_time room_time)
  then show ?case by (intro capacity_activity)
next
  case (cleanup m roomId now)
  then show ?case by (intro capacity_cleanup)
next
  case (tick m now)
  then show ?case by (intro capacity_tick)
qed

lemma members_capacity:
  "within_capacity m \<Longrightarrow> length (getRoomUsers m roomId) \<le> maxUsersPerRoom"
  by (cases "map_of (rooms m) roomId")
     (auto simp add: getRoomUsers_def dest: within_capacity_lookup)


text \<open>
  Claim C3, amended. \<open>joinRoom\<close> fails if and only if the room has
  \<open>maxUsersPerRoom\<close> = 20 members or more, that is 20 members, since no sequence of calls
  brings a room above 20; the failure result is
  \<open>{success: false, error: 'Room is full'}\<close> and the manager is unchanged, so no user is
  added to the room or to the sessions map. With fewer than 20 members the join succeeds
  and the new session is in the room's \<open>users\<close> under its user id and in the manager's
  \<open>users\<close> under the socket id. After a member of a full room has left, a join to
  that room succeeds.
\<close>

theorem C3_join:
  "((\<exists>e. fst (joinRoom m socketId roomId username env) = Rejected e) =
      (maxUsersPerRoom \<le> length (getRoomUsers m roomId))) \<and>
   maxUsersPerRoom = 20 \<and>
   (reachable m \<longrightarrow> within_capacity m) \<and>
   (within_capacity m \<longrightarrow>
      (\<exists>e. fst (joinRoom m socketId roomId username env) = Rejected e) =
      (length (getRoomUsers m roomId) = maxUsersPerRoom)) \<and>
   (maxUsersPerRoom \<le> length (getRoomUsers m roomId) \<longrightarrow>
      joinRoom m socketId roomId username env = (Rejected ''Room is full'', m)) \<and>
   (length (getRoomUsers m roomId) < maxUsersPerRoom \<longrightarrow>
      (\<exists>user info m' room' p.
         joinRoom m socketId roomId username env = (Joined user info, m') \<and>
         u_socketId user = socketId \<and> u_roomId user = roomId \<and>
         map_of (rooms m') roomId = Some room' \<and>
         map_of (r_users room') (u_id user) = Some p \<and>
         map_of (users m') socketId = Some p \<and>
         p < length (store m') \<and> store m' ! p = user)) \<and>
   (\<forall>p room.
      map_of (users m) leaver = Some p \<and> u_roomId (store m ! p) = roomId \<and>
      map_of (rooms m) roomId = Some room \<and>
      map_of (r_users room) (u_id (store m ! p)) \<noteq> None \<and>
      length (r_users room) = maxUsersPerRoom \<longrightarrow>
        joinRoom m socketId roomId username env = (Rejected ''Room is full'', m) \<and>
        (\<exists>user info m'.
           joinRoom (snd (leaveRoom m leaver t)) socketId roomId username env'
             = (Joined user info, m')))"
proof (intro conjI allI impI)
  show iff: "(\<exists>e. fst (joinRoom m socketId roomId username env) = Rejected e) =
      (maxUsersPerRoom \<le> length (getRoomUsers m roomId))"
  proof (cases "maxUsersPerRoom \<le> length (getRoomUsers m roomId)")
    case True
    then show ?thesis by (simp add: join_rejected)
  next
    case False
    then have "length (getRoomUsers m roomId) < maxUsersPerRoom" by simp
    from join_accepted [OF this, of socketId username env] False show ?thesis by auto
  qed
  show "maxUsersPerRoom = 20" by (rule maxUsersPerRoom_def)
  show "within_capacity m" if "reachable m" using that by (rule reachable_capacity)
  show "(\<exists>e. fst (joinRoom m socketId roomId username env) = Rejected e) =
      (length (getRoomUsers m roomId) = maxUsersPerRoom)" if "within_capacity m"
    unfolding iff using members_capacity [OF that, of roomId] by auto
  show "joinRoom m socketId roomId username env = (Rejected ''Room is full'', m)"
    if "maxUsersPerRoom \<le> length (getRoomUsers m roomId)"
    using that by (rule join_rejected)
  show "\<exists>user info m' room' p.
         joinRoom m socketId roomId username env = (Joined user info, m') \<and>
         u_socketId user = socketId \<and> u_roomId user = roomId \<and>
         map_of (rooms m') roomId = Some room' \<and>
         map_of (r_users room') (u_id user) = Some p \<and>
         map_of (users m') socketId = Some p \<and>
         p < length (store m') \<and> store m' ! p = user"
    if "length (getRoomUsers m roomId) < maxUsersPerRoom"
    using join_accepted [OF that, of socketId username env] by blast
next
  fix p room
  assume h: "map_of (users m) leaver = Some p \<and> u_roomId (store m ! p) = roomId \<and>
      map_of (rooms m) roomId = Some room \<and>
      map_of (r_users room) (u_id (store m ! p)) \<noteq> None \<and>
      length (r_users room) = maxUsersPerRoom"
  then have "length (getRoomUsers m roomId) = maxUsersPerRoom"
    by (simp add: getRoomUsers_def)
  then show "joinRoom m socketId roomId username env = (Rejected ''Room is full'', m)"
    by (intro join_rejected) simp
  from h leave_frees_place [of m leaver p room t]
  have "length (getRoomUsers (snd (leaveRoom m leaver t)) roomId) < maxUsersPerRoom"
    by auto
  from join_accepted [OF this, of socketId username env']
  show "\<exists>user info m'.
           joinRoom (snd (leaveRoom m leaver t)) socketId roomId username env'
             = (Joined user info, m')"
    by blast
qed

theorem C3_join_witness:
  "within_capacity full_manager \<and>
   length (getRoomUsers full_manager ''r1'') = maxUsersPerRoom \<and>
   reachable (RoomManager :: unit manager) \<and> within_capacity (RoomManager :: unit manager) \<and>
   maxUsersPerRoom \<le> length (getRoomUsers full_manager ''r1'') \<and>
   joinRoom full_manager ''s'' ''r1'' None (example_join_env ''abc'')
     = (Rejected ''Room is full'', full_manager) \<and>
   map_of (users full_manager) ''sock_'' = Some 0 \<and>
   (\<exists>user info m'.
      joinRoom (snd (leaveRoom full_manager ''sock_'' 2)) ''s'' ''r1'' None (example_join_env ''abc'')
        = (Joined user info, m')) \<and>
   length (getRoomUsers full_manager ''r2'') < maxUsersPerRoom \<and>
   (\<exists>user info m'.
      joinRoom full_manager ''s'' ''r2'' None (example_join_env ''abc'') = (Joined user info, m'))"
proof -
  have full: "maxUsersPerRoom \<le> length (getRoomUsers full_manager ''r1'')"
    by (simp add: full_manager_members)
  have other: "length (getRoomUsers full_manager ''r2'') < maxUsersPerRoom"
    by (simp add: getRoomUsers_def full_manager_def maxUsersPerRoom_pos)
  have leaver: "map_of (users full_manager) ''sock_'' = Some 0 \<and>
      u_roomId (store full_manager ! 0) = ''r1'' \<and>
      map_of (rooms full_manager) ''r1'' =
        Some \<lparr>r_id = ''r1'',
           r_users = map (\<lambda>k. (u_id (example_user k), k)) [0..<maxUsersPerRoom],
           r_operationLog = OperationLog ''r1'' 0, r_createdAt = 0, r_lastActivity = 0\<rparr> \<and>
      map_of (r_users \<lparr>r_id = ''r1'',
           r_users = map (\<lambda>k. (u_id (example_user k), k)) [0..<maxUsersPerRoom],
           r_operationLog = OperationLog ''r1'' (0::int), r_createdAt = 0, r_lastActivity = 0\<rparr>)
         (u_id (store full_manager ! 0)) \<noteq> None \<and>
      length (r_users \<lparr>r_id = ''r1'',
           r_users = map (\<lambda>k. (u_id (example_user k), k)) [0..<maxUsersPerRoom],
           r_operationLog = OperationLog ''r1'' (0::int), r_createdAt = 0, r_lastActivity = 0\<rparr>)
        = maxUsersPerRoom"
    by (simp add: full_manager_first full_manager_room)
  from C3_join [of full_manager "''s''" "''r1''" None "example_join_env ''abc''" "''sock_''" 2
      "example_join_env ''abc''"] full leaver
  have 1: "joinRoom full_manager ''s'' ''r1'' None (example_join_env ''abc'')
     = (Rejected ''Room is full'', full_manager)"
    and 2: "\<exists>user info m'.
      joinRoom (snd (leaveRoom full_manager ''sock_'' 2)) ''s'' ''r1'' None (example_join_env ''abc'')
        = (Joined user info, m')"
    by blast+
  from C3_join [of full_manager "''s''" "''r2''" None "example_join_env ''abc''" "''sock_''" 2
      "example_join_env ''abc''"] other
  have 3: "\<exists>user info m'.
      joinRoom full_manager ''s'' ''r2'' None (example_join_env ''abc'') = (Joined user info, m')"
    by blast
  have cap: "within_capacity full_manager"
    by (simp add: within_capacity_def full_manager_def)
  from C3_join [of "RoomManager :: unit manager" "''s''" "''r2''" None "example_join_env ''abc''"
      "''sock_''" 2 "example_join_env ''abc''"] reachable.start
  have 4: "within_capacity (RoomManager :: unit manager)" by blast
  from full other 1 2 3 4 cap full_manager_first(1) full_manager_members reachable.start
  show ?thesis by blast
qed

theorem C3_counterexample:
  "length (getRoomUsers full_manager ''r1'') = 20 \<and>
   fst (joinRoom full_manager ''s'' ''r1'' None (example_join_env ''abc''))
     = Rejected ''Room is full'' \<and>
   fst (joinRoom full_manager ''s'' ''r1'' None (example_join_env ''abc''))
     \<noteq> Rejected ''room_full''"
proof -
  have "maxUsersPerRoom \<le> length (getRoomUsers full_manager ''r1'')"
    by (simp add: full_manager_members)
  then have "joinRoom full_manager ''s'' ''r1'' None (example_join_env ''abc'')
     = (Rejected ''Room is full'', full_manager)"
    by (rule join_rejected)
  then show ?thesis by (simp add: full_manager_members maxUsersPerRoom_def)
qed

end
